theory Spec2Isabelle
  imports Main "HOL-Library.AList"
begin

section \<open>Python strings\<close>

text \<open>
  Strings are lists of characters. The casing functions cover the ASCII letters, which
  is what attribute names, wire names and path components of the library are made of;
  every other character is left as it is.
\<close>

definition lowercase_letters :: string where
  "lowercase_letters = ''abcdefghijklmnopqrstuvwxyz''"

definition uppercase_letters :: string where
  "uppercase_letters = ''ABCDEFGHIJKLMNOPQRSTUVWXYZ''"

definition upper_char :: "char \<Rightarrow> char" where
  "upper_char c =
     (case map_of (zip lowercase_letters uppercase_letters) c of Some u \<Rightarrow> u | None \<Rightarrow> c)"

definition lower_char :: "char \<Rightarrow> char" where
  "lower_char c =
     (case map_of (zip uppercase_letters lowercase_letters) c of Some l \<Rightarrow> l | None \<Rightarrow> c)"

text \<open>\<^verbatim>\<open>str.capitalize()\<close>: the first character in upper case, the others in lower case.\<close>

fun capitalize :: "string \<Rightarrow> string" where
  "capitalize [] = []"
| "capitalize (c # cs) = upper_char c # map lower_char cs"

text \<open>\<^verbatim>\<open>s.startswith(p)\<close>.\<close>

definition startswith :: "string \<Rightarrow> string \<Rightarrow> bool" where
  "startswith s p = (take (length p) s = p)"

text \<open>\<^verbatim>\<open>a in b\<close> on strings: \<open>a\<close> occurs in \<open>b\<close> as a contiguous piece.\<close>

fun str_in :: "string \<Rightarrow> string \<Rightarrow> bool" where
  "str_in a [] = (a = [])"
| "str_in a (c # cs) = (startswith (c # cs) a \<or> str_in a cs)"

text \<open>\<^verbatim>\<open>s.split(sep)\<close> for a separator of one character.\<close>

fun split_char :: "char \<Rightarrow> string \<Rightarrow> string list" where
  "split_char sep [] = [[]]"
| "split_char sep (c # cs) =
     (if c = sep then [] # split_char sep cs
      else (case split_char sep cs of
              [] \<Rightarrow> [[c]]
            | w # ws \<Rightarrow> (c # w) # ws))"

text \<open>\<^verbatim>\<open>sep.join(parts)\<close>.\<close>

fun join :: "string \<Rightarrow> string list \<Rightarrow> string" where
  "join sep [] = []"
| "join sep [p] = p"
| "join sep (p # q # ps) = p @ sep @ join sep (q # ps)"

text \<open>\<^verbatim>\<open>s.isdigit()\<close>: not empty, and decimal digits only.\<close>

definition isdigit :: "string \<Rightarrow> bool" where
  "isdigit s = (s \<noteq> [] \<and> list_all (\<lambda>c. c \<in> set ''0123456789'') s)"

section \<open>The key transform of the XML export\<close>

text \<open>
  \<^verbatim>\<open>DataverseBase._snake_to_camel\<close> and \<^verbatim>\<open>Dataset._snake_to_camel\<close> have the same body:
  \<^verbatim>\<open>"".join(x.capitalize() or "_" for x in word.split("_"))\<close>.
  An empty string is falsy, so \<^verbatim>\<open>or\<close> replaces the capitalised empty segment by an underscore.
\<close>

definition camel_segment :: "string \<Rightarrow> string" where
  "camel_segment x = (if capitalize x = [] then ''_'' else capitalize x)"

definition snake_to_camel :: "string \<Rightarrow> string" where
  "snake_to_camel word = concat (map camel_segment (split_char (CHR ''_'') word))"

section \<open>Numbers and dates as text\<close>

definition digit_char :: "nat \<Rightarrow> char" where
  "digit_char n = ''0123456789'' ! (n mod 10)"

function str_nat :: "nat \<Rightarrow> string" where
  "str_nat n = (if n < 10 then [digit_char n] else str_nat (n div 10) @ [digit_char n])"
  by pat_completeness auto
termination
  by (relation "measure id") auto

declare str_nat.simps [simp del]

text \<open>\<^verbatim>\<open>str(i)\<close> for an integer.\<close>

definition str_int :: "int \<Rightarrow> string" where
  "str_int i = (if i < 0 then CHR ''-'' # str_nat (nat (- i)) else str_nat (nat i))"

definition zfill :: "nat \<Rightarrow> string \<Rightarrow> string" where
  "zfill w s = replicate (w - length s) (CHR ''0'') @ s"

text \<open>\<^verbatim>\<open>value.strftime("%Y-%m-%d")\<close>, for the years of four digits.\<close>

definition strftime_ymd :: "nat \<Rightarrow> nat \<Rightarrow> nat \<Rightarrow> string" where
  "strftime_ymd y m d = zfill 4 (str_nat y) @ ''-'' @ zfill 2 (str_nat m) @ ''-'' @ zfill 2 (str_nat d)"

section \<open>Metadata objects\<close>

text \<open>
  The exceptions the modelled code raises. \<open>AttributeError\<close> and \<open>TypeError\<close> are the
  ones Python raises by itself, when a method is called on a value that has none and
  when \<^verbatim>\<open>None\<close> is subscripted.
\<close>

datatype error =
    AttributeError
  | TypeError
  | ValueError string
  | AssertionError string
  | FileExistsError string
  | FileNotFoundError string

text \<open>
  The message an exception carries, and the message of the exception a call raised, if
  it raised one.
\<close>

definition error_message :: "error \<Rightarrow> string" where
  "error_message e =
     (case e of
        AttributeError \<Rightarrow> []
      | TypeError \<Rightarrow> []
      | ValueError m \<Rightarrow> m
      | AssertionError m \<Rightarrow> m
      | FileExistsError m \<Rightarrow> m
      | FileNotFoundError m \<Rightarrow> m)"

definition raised_message :: "error + 'a \<Rightarrow> string option" where
  "raised_message r = (case r of Inl e \<Rightarrow> Some (error_message e) | Inr x \<Rightarrow> None)"

text \<open>
  \<^verbatim>\<open>field.json_schema_extra\<close>: the descriptor of a declared attribute, a dictionary with
  the keys \<^verbatim>\<open>typeName\<close>, \<^verbatim>\<open>typeClass\<close> and \<^verbatim>\<open>multiple\<close>.
\<close>

datatype schema_extra =
  SchemaExtra (typeName: string) (typeClass: string) (multiple: bool)

text \<open>
  The values an attribute can hold. \<open>VDate y m d\<close> is a \<^verbatim>\<open>date\<close> or \<^verbatim>\<open>datetime\<close>, of which
  the serialization reads the calendar day only. \<open>VEnum s v\<close> is a member of an
  enumeration: \<open>s\<close> is what \<^verbatim>\<open>str\<close> returns for it and \<open>v\<close> its \<^verbatim>\<open>.value\<close>. \<open>VDict\<close> is
  a plain dictionary, in insertion order; \<open>VObj\<close> is an instance of a subclass of
  \<^verbatim>\<open>DataverseBase\<close>: its \<^verbatim>\<open>_metadatablock_name\<close> when it has one, and its declared
  attributes (\<^verbatim>\<open>model_fields\<close>) in declaration order, each with its name, its alias, its
  descriptor and its current value. Floating point numbers are left out.
\<close>

datatype pyval =
    VNone
  | VStr string
  | VInt int
  | VBool bool
  | VDate nat nat nat
  | VEnum string pyval
  | VList "pyval list"
  | VDict "(string \<times> pyval) list"
  | VObj obj
and obj =
  Obj (metadatablock_name: "string option") (model_fields: "attr list")
and attr =
  Attr (attr_name: string) (field_alias: "string option")
       (json_schema_extra: "schema_extra option") (attr_value: pyval)

subsection \<open>The dump of pydantic\<close>

text \<open>
  \<^verbatim>\<open>BaseModel.model_dump(exclude_none=en, by_alias=True)\<close> belongs to pydantic, not to
  this repository. It turns a model into a dictionary keyed by alias (by name where a
  field has no alias), turns the models nested in it into dictionaries in the same way,
  and with \<^verbatim>\<open>exclude_none\<close> leaves out the fields of every model whose value is
  \<^verbatim>\<open>None\<close>. It never calls the \<^verbatim>\<open>dict\<close> method that \<^verbatim>\<open>DataverseBase\<close> overrides.
\<close>

definition dump_key :: "string \<Rightarrow> string option \<Rightarrow> string" where
  "dump_key name al = (case al of None \<Rightarrow> name | Some a \<Rightarrow> a)"

fun model_dump_value :: "bool \<Rightarrow> pyval \<Rightarrow> pyval"
and model_dump :: "bool \<Rightarrow> obj \<Rightarrow> (string \<times> pyval) list"
and dump_attrs :: "bool \<Rightarrow> attr list \<Rightarrow> (string \<times> pyval) list"
and dump_list :: "bool \<Rightarrow> pyval list \<Rightarrow> pyval list"
and dump_items :: "bool \<Rightarrow> (string \<times> pyval) list \<Rightarrow> (string \<times> pyval) list"
where
  "model_dump_value en (VObj ob) = VDict (model_dump en ob)"
| "model_dump_value en (VList xs) = VList (dump_list en xs)"
| "model_dump_value en (VDict kvs) = VDict (dump_items en kvs)"
| "model_dump_value en VNone = VNone"
| "model_dump_value en (VStr s) = VStr s"
| "model_dump_value en (VInt i) = VInt i"
| "model_dump_value en (VBool b) = VBool b"
| "model_dump_value en (VDate y m d) = VDate y m d"
| "model_dump_value en (VEnum s v) = VEnum s v"
| "model_dump en (Obj bn attrs) = dump_attrs en attrs"
| "dump_attrs en [] = []"
| "dump_attrs en (Attr name al extra v # rest) =
     (if en \<and> v = VNone then dump_attrs en rest
      else (dump_key name al, model_dump_value en v) # dump_attrs en rest)"
| "dump_list en [] = []"
| "dump_list en (x # xs) = model_dump_value en x # dump_list en xs"
| "dump_items en [] = []"
| "dump_items en ((k, v) # kvs) = (k, model_dump_value en v) # dump_items en kvs"

subsection \<open>The dictionary export\<close>

text \<open>
  \<^verbatim>\<open>DataverseBase.dict(**dictkwargs)\<close>: the dump of pydantic, called with the caller's
  keyword arguments (of which \<^verbatim>\<open>exclude_none\<close> is modelled, \<^verbatim>\<open>False\<close> when it is not
  given), and of its items those whose value is neither \<^verbatim>\<open>{}\<close> nor \<^verbatim>\<open>[]\<close>.
\<close>

definition base_dict :: "bool \<Rightarrow> obj \<Rightarrow> (string \<times> pyval) list" where
  "base_dict exclude_none ob =
     filter (\<lambda>(key, v). v \<noteq> VDict [] \<and> v \<noteq> VList []) (model_dump exclude_none ob)"

text \<open>
  The values for which \<^verbatim>\<open>dict(exclude_none=e)\<close> has no entry: \<^verbatim>\<open>None\<close> when \<open>e\<close> is set, the
  empty list, the empty dictionary, and a nested object whose own dump is empty, which
  is one without attributes or, when \<open>e\<close> is set, with no attribute other than \<^verbatim>\<open>None\<close>.
\<close>

definition dict_drops :: "bool \<Rightarrow> pyval \<Rightarrow> bool" where
  "dict_drops exclude_none v =
     ((exclude_none \<and> v = VNone) \<or> v = VList [] \<or> v = VDict []
      \<or> (case v of
            VObj c \<Rightarrow> list_all (\<lambda>b. exclude_none \<and> attr_value b = VNone) (model_fields c)
          | _ \<Rightarrow> False))"

subsection \<open>The emptiness test\<close>

text \<open>
  \<^verbatim>\<open>DataverseBase.is_empty(value)\<close>. Only a model has the attribute \<^verbatim>\<open>model_fields\<close>.
\<close>

definition is_empty :: "pyval \<Rightarrow> bool" where
  "is_empty v =
     (if v = VNone then True
      else if v = VList [] then True
      else (case v of VObj ob \<Rightarrow> base_dict True ob = [] | _ \<Rightarrow> False))"

subsection \<open>The wire format\<close>

text \<open>
  The loop of \<^verbatim>\<open>dataverse_dict\<close> skips the attributes whose name contains \<^verbatim>\<open>add_\<close> or
  \<^verbatim>\<open>_metadatablock_name\<close>.
\<close>

definition is_helper_attr :: "string \<Rightarrow> bool" where
  "is_helper_attr name = list_ex (\<lambda>n. str_in n name) [''add_'', ''_metadatablock_name'']"

text \<open>
  The normalisation of a value by its runtime type, the \<^verbatim>\<open>if\<close>/\<^verbatim>\<open>elif\<close> chain of the loop.
  \<open>S\<close> is \<^verbatim>\<open>str\<close> on an instance of a model, which pydantic defines.
\<close>

definition is_enum :: "pyval \<Rightarrow> bool" where
  "is_enum v = (case v of VEnum s x \<Rightarrow> True | _ \<Rightarrow> False)"

definition enum_value :: "pyval \<Rightarrow> pyval" where
  "enum_value v = (case v of VEnum s x \<Rightarrow> x | _ \<Rightarrow> v)"

definition wire_value :: "(obj \<Rightarrow> string) \<Rightarrow> pyval \<Rightarrow> pyval" where
  "wire_value S v =
     (case v of
        VList xs \<Rightarrow> if list_all is_enum xs then VList (map enum_value xs) else VList xs
      | VDict d \<Rightarrow> VDict d
      | VDate y m d \<Rightarrow> VStr (strftime_ymd y m d)
      | VNone \<Rightarrow> VStr ''None''
      | VStr s \<Rightarrow> VStr s
      | VInt i \<Rightarrow> VStr (str_int i)
      | VBool b \<Rightarrow> VStr (if b then ''True'' else ''False'')
      | VEnum s x \<Rightarrow> VStr s
      | VObj ob \<Rightarrow> VStr (S ob))"

text \<open>The mapping stored under the wire name of a field.\<close>

definition field_entry :: "schema_extra \<Rightarrow> pyval \<Rightarrow> pyval" where
  "field_entry properties v =
     VDict [(''multiple'', VBool (multiple properties)),
            (''typeClass'', VStr (typeClass properties)),
            (''typeName'', VStr (typeName properties)),
            (''value'', v)]"

text \<open>The end of \<^verbatim>\<open>dataverse_dict\<close>: the wrapping under the block name.\<close>

definition wrap_block :: "string option \<Rightarrow> (string \<times> pyval) list \<Rightarrow> pyval" where
  "wrap_block bn json_obj =
     (case bn of
        Some name \<Rightarrow>
          if map snd json_obj \<noteq> []
          then VDict [(name, VDict [(''fields'', VList (map snd json_obj))])]
          else VDict json_obj
      | None \<Rightarrow> VDict json_obj)"

text \<open>
  \<^verbatim>\<open>DataverseBase.dataverse_dict\<close>. \<open>json_fields\<close> is its loop over the declared
  attributes, with the dictionary \<^verbatim>\<open>json_obj\<close> built so far; \<^verbatim>\<open>json_obj.update\<close> replaces
  the value of a key that is there and appends a new key. \<open>compound_list\<close> is the list
  comprehension over the entries of a repeated compound.
\<close>

fun dataverse_dict :: "(obj \<Rightarrow> string) \<Rightarrow> obj \<Rightarrow> error + pyval"
and json_fields ::
  "(obj \<Rightarrow> string) \<Rightarrow> attr list \<Rightarrow> (string \<times> pyval) list \<Rightarrow> error + (string \<times> pyval) list"
and compound_list :: "(obj \<Rightarrow> string) \<Rightarrow> pyval list \<Rightarrow> error + pyval list"
where
  "dataverse_dict S (Obj bn attrs) =
     (case json_fields S attrs [] of
        Inl e \<Rightarrow> Inl e
      | Inr json_obj \<Rightarrow> Inr (wrap_block bn json_obj))"
| "json_fields S [] json_obj = Inr json_obj"
| "json_fields S (Attr name al extra v # rest) json_obj =
     (if is_helper_attr name then json_fields S rest json_obj
      else if is_empty v then json_fields S rest json_obj
      else (case extra of
              None \<Rightarrow> Inl TypeError
            | Some properties \<Rightarrow>
                (case (if typeClass properties = ''compound''
                       then (case v of
                               VList xs \<Rightarrow>
                                 (case compound_list S xs of
                                    Inl e \<Rightarrow> Inl e
                                  | Inr ds \<Rightarrow> Inr (VList ds))
                             | VObj ob \<Rightarrow> dataverse_dict S ob
                             | _ \<Rightarrow> Inl AttributeError)
                       else Inr v) of
                   Inl e \<Rightarrow> Inl e
                 | Inr w \<Rightarrow>
                     json_fields S rest
                       (AList.update (typeName properties)
                          (field_entry properties (wire_value S w)) json_obj))))"
| "compound_list S [] = Inr []"
| "compound_list S (x # xs) =
     (case x of
        VObj ob \<Rightarrow>
          (case dataverse_dict S ob of
             Inl e \<Rightarrow> Inl e
           | Inr d \<Rightarrow>
               (case compound_list S xs of
                  Inl e \<Rightarrow> Inl e
                | Inr ds \<Rightarrow> Inr (d # ds)))
      | _ \<Rightarrow> Inl AttributeError)"

text \<open>
  Notions for stating what the loop does: an attribute is serialized when the loop
  does not skip it, as a helper or as empty; the wire names of a list of attributes are the
  \<^verbatim>\<open>typeName\<close>s of their descriptors, in declaration order; the name of an entry is what
  a field mapping holds under \<^verbatim>\<open>typeName\<close>.
\<close>

definition serialized :: "attr \<Rightarrow> bool" where
  "serialized a = (\<not> is_helper_attr (attr_name a) \<and> \<not> is_empty (attr_value a))"

definition entry_name :: "pyval \<Rightarrow> pyval option" where
  "entry_name e = (case e of VDict d \<Rightarrow> map_of d ''typeName'' | _ \<Rightarrow> None)"

definition wire_names :: "attr list \<Rightarrow> string list" where
  "wire_names attrs =
     concat (map (\<lambda>a. case json_schema_extra a of None \<Rightarrow> [] | Some p \<Rightarrow> [typeName p]) attrs)"

section \<open>The dataset\<close>

text \<open>
  Modelled from the spec: the class \<^verbatim>\<open>File\<close> (\<^verbatim>\<open>easyDataverse/core/file.py\<close> is not among
  the sources). A file entry has a filename, a local path, a remote directory, a
  description and, once uploaded, a remote identifier; the code under \<^verbatim>\<open>src/\<close> reads
  them as \<^verbatim>\<open>filename\<close>, \<^verbatim>\<open>local_path\<close>, \<^verbatim>\<open>dv_dir\<close>, \<^verbatim>\<open>description\<close> and \<^verbatim>\<open>file_pid\<close>.
\<close>

record file_entry =
  filename :: string
  dv_dir :: string
  local_path :: string
  description :: string
  file_pid :: "string option"

text \<open>
  Modelled from the spec: the equality of \<^verbatim>\<open>File\<close>, which \<^verbatim>\<open>in\<close> uses. The identity of a file
  entry for the detection of duplicates is the equality of filename, local path, remote
  directory and description; the remote identifier takes no part in it.
\<close>

definition same_file :: "file_entry \<Rightarrow> file_entry \<Rightarrow> bool" where
  "same_file f g =
     (filename f = filename g \<and> local_path f = local_path g
      \<and> dv_dir f = dv_dir g \<and> description f = description g)"

text \<open>
  \<^verbatim>\<open>Dataset\<close>: the registered blocks by name, the persistent identifier and the files.
  The connection parameters play no part in the methods modelled here.
\<close>

record dataset =
  metadatablocks :: "(string \<times> obj) list"
  p_id :: "string option"
  files :: "file_entry list"

subsection \<open>Adding a file\<close>

text \<open>\<^verbatim>\<open>os.path.basename\<close>: what follows the last slash.\<close>

definition basename :: "string \<Rightarrow> string" where
  "basename p = last (split_char (CHR ''/'') p)"

text \<open>
  \<^verbatim>\<open>Dataset.add_file\<close>. The result is the outcome of the call together with the dataset
  as the call leaves it.
\<close>

definition add_file :: "string \<Rightarrow> string \<Rightarrow> string \<Rightarrow> dataset \<Rightarrow> (error + unit) \<times> dataset" where
  "add_file lpath dir descr ds =
     (let f = \<lparr>filename = basename lpath, dv_dir = dir, local_path = lpath,
               description = descr, file_pid = None\<rparr>
      in if \<not> list_ex (same_file f) (files ds)
         then (Inr (), ds\<lparr>files := files ds @ [f]\<rparr>)
         else (Inl (FileExistsError ''File has already been added to the dataset''), ds))"

subsection \<open>Paths of the file system\<close>

text \<open>\<^verbatim>\<open>s.replace(old, new)\<close>, written \<open>replace_str old new s\<close>.\<close>

function replace_str :: "string \<Rightarrow> string \<Rightarrow> string \<Rightarrow> string" where
  "replace_str old new [] = (if old = [] then new else [])"
| "replace_str old new (c # cs) =
     (if old = [] then new @ concat (map (\<lambda>x. x # new) (c # cs))
      else if startswith (c # cs) old then new @ replace_str old new (drop (length old) (c # cs))
      else c # replace_str old new cs)"
  by pat_completeness auto
termination
  by (relation "measure (\<lambda>(old, new, s). length s)") auto

text \<open>\<^verbatim>\<open>s.split(sep)\<close> for a separator that is not empty; \<open>cur\<close> is the piece being read.\<close>

function split_from :: "string \<Rightarrow> string \<Rightarrow> string \<Rightarrow> string list" where
  "split_from sep cur [] = [cur]"
| "split_from sep cur (c # cs) =
     (if sep \<noteq> [] \<and> startswith (c # cs) sep
      then cur # split_from sep [] (drop (length sep) (c # cs))
      else split_from sep (cur @ [c]) cs)"
  by pat_completeness auto
termination
  by (relation "measure (\<lambda>(sep, cur, s). length s)") auto

definition split_str :: "string \<Rightarrow> string \<Rightarrow> string list" where
  "split_str sep s = split_from sep [] s"

text \<open>\<^verbatim>\<open>os.path.join(a, b)\<close> of \<^verbatim>\<open>posixpath\<close>.\<close>

definition path_join :: "string \<Rightarrow> string \<Rightarrow> string" where
  "path_join a b =
     (if startswith b ''/'' then b
      else if a = [] \<or> last a = CHR ''/'' then a @ b
      else a @ ''/'' @ b)"

text \<open>\<^verbatim>\<open>os.path.dirname\<close> of \<^verbatim>\<open>posixpath\<close>: the head up to the last slash, without its trailing slashes unless it has nothing else.\<close>

definition dirname :: "string \<Rightarrow> string" where
  "dirname p =
     (let comps = split_char (CHR ''/'') p;
          head = (if length comps > 1 then join ''/'' (butlast comps) @ ''/'' else [])
      in if head \<noteq> [] \<and> head \<noteq> replicate (length head) (CHR ''/'')
         then rev (dropWhile (\<lambda>c. c = CHR ''/'') (rev head))
         else head)"

text \<open>\<^verbatim>\<open>os.path.normpath\<close> of \<^verbatim>\<open>posixpath\<close>; \<open>norm_comps\<close> is its loop over the components.\<close>

fun norm_comps :: "bool \<Rightarrow> string list \<Rightarrow> string list \<Rightarrow> string list" where
  "norm_comps sl [] new_comps = new_comps"
| "norm_comps sl (part # comps) new_comps =
     (if part = [] \<or> part = ''.'' then norm_comps sl comps new_comps
      else if part \<noteq> ''..'' \<or> (\<not> sl \<and> new_comps = []) \<or> (new_comps \<noteq> [] \<and> last new_comps = ''..'')
      then norm_comps sl comps (new_comps @ [part])
      else if new_comps \<noteq> [] then norm_comps sl comps (butlast new_comps)
      else norm_comps sl comps new_comps)"

definition normpath :: "string \<Rightarrow> string" where
  "normpath path =
     (if path = [] then ''.''
      else
        let initial_slashes =
              (if startswith path ''/''
               then (if startswith path ''//'' \<and> \<not> startswith path ''///'' then 2 else 1)
               else (0::nat));
            comps = norm_comps (initial_slashes \<noteq> 0) (split_char (CHR ''/'') path) [];
            p = replicate initial_slashes (CHR ''/'') @ join ''/'' comps
        in if p = [] then ''.'' else p)"

subsection \<open>Adding a directory\<close>

text \<open>
  Both path tests start with the same two lines: the root and its separator are taken
  out of the path, and the normalised rest is split into its components.
\<close>

definition rel_dirs :: "string \<Rightarrow> string \<Rightarrow> string list" where
  "rel_dirs path dirpath =
     split_char (CHR ''/'') (normpath (replace_str (dirpath @ ''/'') [] path))"

text \<open>\<^verbatim>\<open>Dataset._has_hidden_dir\<close>.\<close>

definition has_hidden_dir :: "string \<Rightarrow> string \<Rightarrow> bool" where
  "has_hidden_dir path dirpath =
     (if path = dirpath then False
      else list_ex (\<lambda>dir. startswith dir ''.'') (rel_dirs path dirpath))"

text \<open>\<^verbatim>\<open>Dataset._has_ignore_dirs\<close>: the list \<^verbatim>\<open>check\<close> and \<^verbatim>\<open>any(check)\<close>.\<close>

definition ignore_checks :: "string \<Rightarrow> string \<Rightarrow> string list \<Rightarrow> bool list" where
  "ignore_checks path dirpath ignores =
     concat (map (\<lambda>ignore.
       concat (map (\<lambda>dir. if length ignore > 0 then [str_in (replace_str ''/'' [] ignore) dir] else [])
                 (rel_dirs path dirpath))) ignores)"

definition has_ignore_dirs :: "string \<Rightarrow> string \<Rightarrow> string list \<Rightarrow> bool" where
  "has_ignore_dirs path dirpath ignores = list_ex id (ignore_checks path dirpath ignores)"

text \<open>
  The end of the loop body: the entry with the same filename gets the new local path,
  and the new entry is appended when there is none.
\<close>

fun substitute :: "file_entry \<Rightarrow> file_entry list \<Rightarrow> file_entry list" where
  "substitute data_file [] = [data_file]"
| "substitute data_file (f # fs) =
     (if filename f = filename data_file then f\<lparr>local_path := local_path data_file\<rparr> # fs
      else f # substitute data_file fs)"

text \<open>
  The body of the loop over the files of one directory, for a file that is not skipped.
  \<^verbatim>\<open>os.path.join(*path_parts)\<close> raises \<open>TypeError\<close> without arguments, and \<^verbatim>\<open>split\<close> raises
  \<open>ValueError\<close> on an empty separator.
\<close>

definition ingest_file :: "string \<Rightarrow> string \<Rightarrow> string \<Rightarrow> string \<Rightarrow> file_entry list \<Rightarrow> error + file_entry list" where
  "ingest_file dirpath dir path name fs =
     (let filepath = path_join path name;
          path_parts = filter (\<lambda>p. p \<notin> set (split_char (CHR ''/'') dirpath))
                         (split_char (CHR ''/'') filepath)
      in case path_parts of
           [] \<Rightarrow> Inl TypeError
         | p # ps \<Rightarrow>
             (case (if dirpath \<noteq> ''.''
                    then (if dirpath = [] then Inl (ValueError ''empty separator'')
                          else Inr (path_join dir (dirname (last (split_str dirpath filepath)))))
                    else Inr dir) of
                Inl e \<Rightarrow> Inl e
              | Inr dv_pre \<Rightarrow>
                  Inr (substitute \<lparr>filename = foldl path_join p ps, dv_dir = dv_pre,
                                   local_path = filepath, description = [], file_pid = None\<rparr> fs)))"

text \<open>The loop over the files of one directory.\<close>

fun ingest_files ::
  "string \<Rightarrow> string \<Rightarrow> string \<Rightarrow> string list \<Rightarrow> file_entry list \<Rightarrow> (error + unit) \<times> file_entry list" where
  "ingest_files dirpath dir path [] fs = (Inr (), fs)"
| "ingest_files dirpath dir path (name # rest) fs =
     (if startswith name ''.'' then ingest_files dirpath dir path rest fs
      else (case ingest_file dirpath dir path name fs of
              Inl e \<Rightarrow> (Inl e, fs)
            | Inr fs' \<Rightarrow> ingest_files dirpath dir path rest fs'))"

text \<open>
  The loop over \<^verbatim>\<open>os.walk(dirpath)\<close>, whose entries are given as pairs of a directory path
  and the names of the files in it.
\<close>

fun walk_loop ::
  "string \<Rightarrow> string \<Rightarrow> bool \<Rightarrow> string list \<Rightarrow> (string \<times> string list) list \<Rightarrow> file_entry list
     \<Rightarrow> (error + unit) \<times> file_entry list" where
  "walk_loop dirpath dir include_hidden ignores [] fs = (Inr (), fs)"
| "walk_loop dirpath dir include_hidden ignores ((path, names) # rest) fs =
     (if has_hidden_dir path dirpath \<and> \<not> include_hidden
      then walk_loop dirpath dir include_hidden ignores rest fs
      else if has_ignore_dirs path dirpath ignores
      then walk_loop dirpath dir include_hidden ignores rest fs
      else (case ingest_files dirpath dir path names fs of
              (Inl e, fs') \<Rightarrow> (Inl e, fs')
            | (Inr u, fs') \<Rightarrow> walk_loop dirpath dir include_hidden ignores rest fs'))"

text \<open>
  \<^verbatim>\<open>Dataset.add_directory\<close>. The file system is given by \<open>isdir\<close> (\<^verbatim>\<open>os.path.isdir\<close>) and
  \<open>walk\<close> (\<^verbatim>\<open>os.walk\<close>).
\<close>

definition add_directory ::
  "(string \<Rightarrow> bool) \<Rightarrow> (string \<Rightarrow> (string \<times> string list) list)
     \<Rightarrow> string \<Rightarrow> string \<Rightarrow> bool \<Rightarrow> string list \<Rightarrow> dataset \<Rightarrow> (error + unit) \<times> dataset" where
  "add_directory isdir walk dirpath dir include_hidden ignores ds =
     (if \<not> isdir dirpath
      then (Inl (FileNotFoundError
                   (''Directory at '' @ dirpath @
                    '' does not exist or is not a directory. Please provide a valid directory.'')), ds)
      else (case walk_loop dirpath dir include_hidden ignores (walk dirpath) (files ds) of
              (r, fs) \<Rightarrow> (r, ds\<lparr>files := fs\<rparr>)))"

text \<open>
  The entries of a walk without the directories that \<^verbatim>\<open>_has_ignore_dirs\<close> holds of, and their
  file names without those that begin with a dot.
\<close>

definition retained :: "string \<Rightarrow> string list \<Rightarrow> (string \<times> string list) list \<Rightarrow> (string \<times> string list) list" where
  "retained dirpath ignores entries =
     map (\<lambda>(path, names). (path, filter (\<lambda>name. \<not> startswith name ''.'') names))
       (filter (\<lambda>(path, names). \<not> has_ignore_dirs path dirpath ignores) entries)"

section \<open>The validation of required fields\<close>

text \<open>\<^verbatim>\<open>REQUIRED_FIELDS\<close>.\<close>

definition REQUIRED_FIELDS :: "string list" where
  "REQUIRED_FIELDS =
     [''citation/title'',
      ''citation/author/name'',
      ''citation/dataset_contact/name'',
      ''citation/dataset_contact/email'',
      ''citation/ds_description/value'',
      ''citation/subject'']"

subsection \<open>The tree view of nob\<close>

text \<open>
  \<^verbatim>\<open>nob.Nob(data)\<close> belongs to the library nob, not to this repository. Its \<^verbatim>\<open>paths\<close> are
  the root and, in depth-first order, one path for every key of a dictionary and every
  index of a list in the data; \<^verbatim>\<open>tree[path].val\<close> is the value found there. A path is kept
  here as the list of its components together with that value; \<open>path_str\<close> is the
  text of a path, which starts with a slash.
\<close>

fun walk_value :: "string list \<Rightarrow> pyval \<Rightarrow> (string list \<times> pyval) list"
and walk_items :: "string list \<Rightarrow> (string \<times> pyval) list \<Rightarrow> (string list \<times> pyval) list"
and walk_list :: "string list \<Rightarrow> nat \<Rightarrow> pyval list \<Rightarrow> (string list \<times> pyval) list"
where
  "walk_value root (VDict kvs) = walk_items root kvs"
| "walk_value root (VList xs) = walk_list root 0 xs"
| "walk_value root VNone = []"
| "walk_value root (VStr s) = []"
| "walk_value root (VInt i) = []"
| "walk_value root (VBool b) = []"
| "walk_value root (VDate y m d) = []"
| "walk_value root (VEnum s v) = []"
| "walk_value root (VObj ob) = []"
| "walk_items root [] = []"
| "walk_items root ((k, v) # kvs) =
     (root @ [k], v) # walk_value (root @ [k]) v @ walk_items root kvs"
| "walk_list root i [] = []"
| "walk_list root i (x # xs) =
     (root @ [str_nat i], x) # walk_value (root @ [str_nat i]) x @ walk_list root (Suc i) xs"

definition nob_paths :: "pyval \<Rightarrow> (string list \<times> pyval) list" where
  "nob_paths d = ([], d) # walk_value [] d"

definition path_str :: "string list \<Rightarrow> string" where
  "path_str p = ''/'' @ join ''/'' p"

subsection \<open>One required path\<close>

text \<open>
  The path of the loop with its index components taken out:
  \<^verbatim>\<open>"/".join([part for part in str(dspath).split("/") if not part.isdigit()])\<close>.
\<close>

definition meta_path :: "string list \<Rightarrow> string" where
  "meta_path dspath =
     join ''/'' (filter (\<lambda>part. \<not> isdigit part) (split_char (CHR ''/'') (path_str dspath)))"

text \<open>The two lines the validator prints, each for the required path it names.\<close>

datatype warning = FieldEmpty string | FieldNotPresent string

definition missing_block_message :: "string \<Rightarrow> string" where
  "missing_block_message name =
     ''Metadatablock '' @ [CHR 0x27] @ name @ [CHR 0x27] @
     '' is not present in the dataset. Please use 'list_metadatablocks' to see which metadatablocks are registered.''"

text \<open>
  The loop of \<^verbatim>\<open>_validate_required_field\<close> over the paths of the block, with the list
  \<^verbatim>\<open>results\<close>, the flag \<^verbatim>\<open>field_exists\<close> and the lines printed so far.
\<close>

fun validate_paths ::
  "string \<Rightarrow> string \<Rightarrow> (string list \<times> pyval) list \<Rightarrow> bool list \<times> bool \<times> warning list
     \<Rightarrow> bool list \<times> bool \<times> warning list" where
  "validate_paths path field_path [] st = st"
| "validate_paths path field_path ((dspath, val) # rest) (results, field_exists, out) =
     (if meta_path dspath \<noteq> field_path
      then validate_paths path field_path rest (results, field_exists, out)
      else if val = VNone
      then validate_paths path field_path rest (results @ [False], True, out @ [FieldEmpty path])
      else validate_paths path field_path rest (results, True, out))"

text \<open>
  \<^verbatim>\<open>Dataset._validate_required_field\<close>: the outcome and the lines printed. The block is
  read through its \<^verbatim>\<open>dict()\<close>, called without arguments.
\<close>

definition validate_required_field :: "dataset \<Rightarrow> string \<Rightarrow> (error + bool) \<times> warning list" where
  "validate_required_field ds path =
     (case split_char (CHR ''/'') path of
        [] \<Rightarrow> (Inl (ValueError ''not enough values to unpack''), [])
      | metadatablock # field \<Rightarrow>
          (let field_path = ''/'' @ join ''/'' field
           in case map_of (metadatablocks ds) metadatablock of
                None \<Rightarrow> (Inl (ValueError (missing_block_message metadatablock)), [])
              | Some block \<Rightarrow>
                  (case validate_paths path field_path
                          (nob_paths (VDict (base_dict False block))) ([], False, []) of
                     (results, field_exists, out) \<Rightarrow>
                       if \<not> field_exists
                       then (Inr (length (results @ [False]) = 0), out @ [FieldNotPresent path])
                       else (Inr (length results = 0), out))))"

text \<open>
  The concretizations of a field path in a block: the paths of its \<^verbatim>\<open>dict()\<close> that the loop
  compares equal to the field path once their index components are taken out, each with
  its value.
\<close>

definition concretizations :: "obj \<Rightarrow> string \<Rightarrow> (string list \<times> pyval) list" where
  "concretizations block field_path =
     filter (\<lambda>(dspath, val). meta_path dspath = field_path)
       (nob_paths (VDict (base_dict False block)))"

subsection \<open>All required paths\<close>

definition assert_message :: string where
  "assert_message =
     ''Required fields are missing or empty. Please provide a value for these fields.''"

text \<open>
  The loop of \<^verbatim>\<open>_validate_required_fields\<close> with its list \<^verbatim>\<open>results\<close>; an exception of a
  call ends it.
\<close>

fun validate_each ::
  "dataset \<Rightarrow> string list \<Rightarrow> bool list \<Rightarrow> warning list \<Rightarrow> (error + bool list) \<times> warning list" where
  "validate_each ds [] results out = (Inr results, out)"
| "validate_each ds (field # rest) results out =
     (case validate_required_field ds field of
        (Inl e, w) \<Rightarrow> (Inl e, out @ w)
      | (Inr r, w) \<Rightarrow> validate_each ds rest (results @ [r]) (out @ w))"

text \<open>
  \<^verbatim>\<open>Dataset._validate_required_fields\<close>. Its docstring announces a \<open>ValueError\<close> and a
  boolean result; its body ends with an \<^verbatim>\<open>assert\<close> on the results, which raises
  \<open>AssertionError\<close> when assertions are on, and returns nothing.
\<close>

definition validate_required_fields :: "dataset \<Rightarrow> (error + unit) \<times> warning list" where
  "validate_required_fields ds =
     (case validate_each ds REQUIRED_FIELDS [] [] of
        (Inl e, out) \<Rightarrow> (Inl e, out)
      | (Inr results, out) \<Rightarrow>
          if list_all id results then (Inr (), out)
          else (Inl (AssertionError assert_message), out))"

section \<open>Example data\<close>

text \<open>
  A citation block with a title, a subtitle that is not set and notes that hold the empty
  string, and what its serialization is. \<open>no_str\<close> stands for \<^verbatim>\<open>str\<close> on a model, which
  the examples never reach.
\<close>

definition no_str :: "obj \<Rightarrow> string" where
  "no_str ob = []"

definition title_info :: schema_extra where
  "title_info = SchemaExtra ''title'' ''primitive'' False"

definition subtitle_info :: schema_extra where
  "subtitle_info = SchemaExtra ''subtitle'' ''primitive'' False"

definition notes_info :: schema_extra where
  "notes_info = SchemaExtra ''notesText'' ''primitive'' False"

definition example_title :: attr where
  "example_title = Attr ''title'' None (Some title_info) (VStr ''T'')"

definition example_subtitle :: attr where
  "example_subtitle = Attr ''subtitle'' None (Some subtitle_info) VNone"

definition example_notes :: attr where
  "example_notes = Attr ''notes'' None (Some notes_info) (VStr [])"

definition example_attrs :: "attr list" where
  "example_attrs = [example_title, example_subtitle, example_notes]"

definition example_block :: obj where
  "example_block = Obj (Some ''citation'') example_attrs"

definition example_json :: "(string \<times> pyval) list" where
  "example_json =
     [(''title'', field_entry title_info (VStr ''T'')),
      (''notesText'', field_entry notes_info (VStr []))]"

definition example_wire :: pyval where
  "example_wire = VDict [(''citation'', VDict [(''fields'', VList (map snd example_json))])]"

text \<open>An author whose only attribute is an empty list, for a compound field.\<close>

definition affiliations_info :: schema_extra where
  "affiliations_info = SchemaExtra ''authorAffiliation'' ''primitive'' True"

definition author_info :: schema_extra where
  "author_info = SchemaExtra ''author'' ''compound'' False"

definition example_author :: obj where
  "example_author = Obj None [Attr ''affiliations'' None (Some affiliations_info) (VList [])]"

text \<open>
  A citation block with two authors, of whom the first has no name; a dataset with a
  geospatial block only; a dataset with the example block.
\<close>

definition name_info :: schema_extra where
  "name_info = SchemaExtra ''authorName'' ''primitive'' False"

definition authors_info :: schema_extra where
  "authors_info = SchemaExtra ''author'' ''compound'' True"

definition author_named :: "pyval \<Rightarrow> pyval" where
  "author_named n = VObj (Obj None [Attr ''name'' None (Some name_info) n])"

definition two_authors_block :: obj where
  "two_authors_block =
     Obj (Some ''citation'')
       [example_title,
        Attr ''author'' None (Some authors_info)
          (VList [author_named VNone, author_named (VStr ''Jane'')])]"

definition two_authors_ds :: dataset where
  "two_authors_ds = \<lparr>metadatablocks = [(''citation'', two_authors_block)], p_id = None, files = []\<rparr>"

definition geo_ds :: dataset where
  "geo_ds = \<lparr>metadatablocks = [(''geospatial'', Obj (Some ''geospatial'') [])], p_id = None, files = []\<rparr>"

definition example_ds :: dataset where
  "example_ds = \<lparr>metadatablocks = [(''citation'', example_block)], p_id = None, files = []\<rparr>"

text \<open>
  The walk of a directory \<^verbatim>\<open>data\<close> that holds \<^verbatim>\<open>a.tmp\<close>, \<^verbatim>\<open>visible/secret_file.txt\<close> and
  \<^verbatim>\<open>secret_dir/x.txt\<close>; a dataset with nothing in it.
\<close>

definition ignored_walk :: "(string \<times> string list) list" where
  "ignored_walk =
     [(''data'', [''a.tmp'']),
      (''data/visible'', [''secret_file.txt'']),
      (''data/secret_dir'', [''x.txt''])]"

definition empty_ds :: dataset where
  "empty_ds = \<lparr>metadatablocks = [], p_id = None, files = []\<rparr>"

section \<open>Facts about the string functions\<close>

lemma split_char_not_Nil: "split_char sep s \<noteq> []"
  by (induction s) (auto split: list.splits)

lemma split_char_append:
  "split_char sep (a @ sep # b) = split_char sep a @ split_char sep b"
proof (induction a)
  case Nil
  then show ?case by simp
next
  case (Cons c a)
  obtain w ws where ws: "split_char sep a = w # ws"
    using split_char_not_Nil [of sep a] by (cases "split_char sep a") auto
  with Cons show ?case by simp
qed

lemma capitalize_Nil_iff: "capitalize x = [] \<longleftrightarrow> x = []"
  by (cases x) simp_all

lemma camel_segment_not_Nil: "camel_segment x \<noteq> []"
  by (simp add: camel_segment_def)

section \<open>Facts about the wire format\<close>

lemma is_empty_iff:
  "is_empty v \<longleftrightarrow> v = VNone \<or> v = VList [] \<or> (\<exists>c. v = VObj c \<and> base_dict True c = [])"
  by (cases v) (auto simp: is_empty_def)

lemma json_fields_skip:
  "\<not> serialized a \<Longrightarrow> json_fields S (a # rest) acc = json_fields S rest acc"
  by (cases a) (auto simp: serialized_def)

lemma json_fields_step:
  assumes "json_fields S (a # rest) acc = Inr j" and "serialized a"
  shows "\<exists>p w. json_schema_extra a = Some p
           \<and> json_fields S rest (AList.update (typeName p) (field_entry p (wire_value S w)) acc) = Inr j
           \<and> (typeClass p = ''compound'' \<or> w = attr_value a)
           \<and> (typeClass p = ''compound'' \<longrightarrow> (\<exists>xs. attr_value a = VList xs) \<or> (\<exists>c. attr_value a = VObj c))"
  using assms
  by (cases a) (auto simp: serialized_def split: option.splits sum.splits if_splits pyval.splits)

lemma json_fields_filter:
  "json_fields S (filter (\<lambda>a. \<not> is_empty (attr_value a)) attrs) acc = json_fields S attrs acc"
proof (induction attrs arbitrary: acc)
  case Nil
  then show ?case by simp
next
  case (Cons a attrs)
  show ?case
  proof (cases a)
    case (Attr name al extra v)
    with Cons show ?thesis by (simp split: option.splits sum.splits)
  qed
qed

lemma set_update_cases: "(k', e) \<in> set (AList.update k v al) \<Longrightarrow> (k', e) = (k, v) \<or> (k', e) \<in> set al"
  by (induction al) (auto split: if_splits)

lemma json_fields_keys:
  "json_fields S attrs acc = Inr j \<Longrightarrow> k \<in> fst ` set j \<Longrightarrow>
     k \<in> fst ` set acc \<or> (\<exists>a\<in>set attrs. serialized a \<and> (\<exists>p. json_schema_extra a = Some p \<and> typeName p = k))"
proof (induction attrs arbitrary: acc)
  case Nil
  then show ?case by simp
next
  case (Cons a attrs)
  show ?case
  proof (cases "serialized a")
    case False
    with Cons.prems have "json_fields S attrs acc = Inr j" by (simp add: json_fields_skip)
    from Cons.IH [OF this Cons.prems(2)] show ?thesis by auto
  next
    case True
    from json_fields_step [OF Cons.prems(1) True] obtain p w where
      p: "json_schema_extra a = Some p" and
      r: "json_fields S attrs (AList.update (typeName p) (field_entry p (wire_value S w)) acc) = Inr j"
      by blast
    from Cons.IH [OF r Cons.prems(2)] p True show ?thesis
      by (auto simp: AList.dom_update)
  qed
qed

lemma json_fields_keys_kept:
  "json_fields S attrs acc = Inr j \<Longrightarrow> fst ` set acc \<subseteq> fst ` set j"
proof (induction attrs arbitrary: acc)
  case Nil
  then show ?case by simp
next
  case (Cons a attrs)
  show ?case
  proof (cases "serialized a")
    case False
    with Cons.prems have "json_fields S attrs acc = Inr j" by (simp add: json_fields_skip)
    from Cons.IH [OF this] show ?thesis .
  next
    case True
    from json_fields_step [OF Cons.prems(1) True] obtain p w where
      r: "json_fields S attrs (AList.update (typeName p) (field_entry p (wire_value S w)) acc) = Inr j"
      by blast
    from Cons.IH [OF r] show ?thesis
      by (auto simp: AList.dom_update)
  qed
qed

lemma json_fields_key_present:
  "json_fields S attrs acc = Inr j \<Longrightarrow> a \<in> set attrs \<Longrightarrow> serialized a \<Longrightarrow>
     \<exists>p. json_schema_extra a = Some p \<and> typeName p \<in> fst ` set j"
proof (induction attrs arbitrary: acc)
  case Nil
  then show ?case by simp
next
  case (Cons b attrs)
  show ?case
  proof (cases "serialized b")
    case False
    with Cons.prems have r: "json_fields S attrs acc = Inr j" and "a \<in> set attrs"
      by (auto simp: json_fields_skip)
    from Cons.IH [OF this Cons.prems(3)] show ?thesis .
  next
    case True
    from json_fields_step [OF Cons.prems(1) True] obtain p w where
      p: "json_schema_extra b = Some p" and
      r: "json_fields S attrs (AList.update (typeName p) (field_entry p (wire_value S w)) acc) = Inr j"
      by blast
    show ?thesis
    proof (cases "a = b")
      case True
      from json_fields_keys_kept [OF r] have "typeName p \<in> fst ` set j"
        by (auto simp: AList.dom_update)
      with p True show ?thesis by simp
    next
      case False
      with Cons.prems have "a \<in> set attrs" by simp
      from Cons.IH [OF r this Cons.prems(3)] show ?thesis .
    qed
  qed
qed

lemma entry_name_field_entry: "entry_name (field_entry p v) = Some (VStr (typeName p))"
  by (simp add: entry_name_def field_entry_def)

lemma json_fields_entries:
  "json_fields S attrs acc = Inr j \<Longrightarrow> (\<And>k e. (k, e) \<in> set acc \<Longrightarrow> entry_name e = Some (VStr k)) \<Longrightarrow>
     (k, e) \<in> set j \<Longrightarrow> entry_name e = Some (VStr k)"
proof (induction attrs arbitrary: acc)
  case Nil
  then show ?case by simp
next
  case (Cons a attrs)
  show ?case
  proof (cases "serialized a")
    case False
    with Cons.prems have "json_fields S attrs acc = Inr j" by (simp add: json_fields_skip)
    from Cons.IH [OF this Cons.prems(2) Cons.prems(3)] show ?thesis by simp
  next
    case True
    from json_fields_step [OF Cons.prems(1) True] obtain p w where
      r: "json_fields S attrs (AList.update (typeName p) (field_entry p (wire_value S w)) acc) = Inr j"
      by blast
    have "entry_name e' = Some (VStr k')"
      if "(k', e') \<in> set (AList.update (typeName p) (field_entry p (wire_value S w)) acc)" for k' e'
      using set_update_cases [OF that] Cons.prems(2) by (auto simp: entry_name_field_entry)
    from Cons.IH [OF r this Cons.prems(3)] show ?thesis by simp
  qed
qed

lemma wire_names_Cons:
  "wire_names (a # attrs) =
     (case json_schema_extra a of None \<Rightarrow> [] | Some p \<Rightarrow> [typeName p]) @ wire_names attrs"
  by (simp add: wire_names_def)

lemma wire_names_filter_subset: "set (wire_names (filter P attrs)) \<subseteq> set (wire_names attrs)"
  by (induction attrs) (auto simp: wire_names_Cons split: option.splits)

lemma distinct_wire_names_filter:
  "distinct (wire_names attrs) \<Longrightarrow> distinct (wire_names (filter P attrs))"
proof (induction attrs)
  case Nil
  then show ?case by simp
next
  case (Cons a attrs)
  then show ?case
    using wire_names_filter_subset [of P attrs]
    by (auto simp: wire_names_Cons split: option.splits)
qed

lemma json_fields_order:
  "json_fields S attrs acc = Inr j \<Longrightarrow>
   distinct (map fst acc @ wire_names (filter serialized attrs)) \<Longrightarrow>
   map fst j = map fst acc @ wire_names (filter serialized attrs)"
proof (induction attrs arbitrary: acc)
  case Nil
  then show ?case by (simp add: wire_names_def)
next
  case (Cons a attrs)
  show ?case
  proof (cases "serialized a")
    case False
    with Cons.prems have "json_fields S attrs acc = Inr j"
      and "distinct (map fst acc @ wire_names (filter serialized attrs))"
      by (simp_all add: json_fields_skip)
    from Cons.IH [OF this] False show ?thesis by simp
  next
    case True
    from json_fields_step [OF Cons.prems(1) True] obtain p w where
      p: "json_schema_extra a = Some p" and
      r: "json_fields S attrs (AList.update (typeName p) (field_entry p (wire_value S w)) acc) = Inr j"
      by blast
    let ?acc = "AList.update (typeName p) (field_entry p (wire_value S w)) acc"
    from True p have n: "wire_names (filter serialized (a # attrs))
        = typeName p # wire_names (filter serialized attrs)"
      by (simp add: wire_names_Cons)
    with Cons.prems(2) have fresh: "typeName p \<notin> set (map fst acc)" by auto
    then have k: "map fst ?acc = map fst acc @ [typeName p]"
      by (simp add: AList.update_keys)
    from Cons.prems(2) n have "distinct (map fst ?acc @ wire_names (filter serialized attrs))"
      by (simp add: k)
    from Cons.IH [OF r this]
    have "map fst j = map fst ?acc @ wire_names (filter serialized attrs)" .
    then show ?thesis unfolding n k by simp
  qed
qed

lemma json_fields_untouched:
  "json_fields S attrs acc = Inr j \<Longrightarrow> k \<notin> set (wire_names (filter serialized attrs)) \<Longrightarrow>
   map_of j k = map_of acc k"
proof (induction attrs arbitrary: acc)
  case Nil
  then show ?case by simp
next
  case (Cons a attrs)
  show ?case
  proof (cases "serialized a")
    case False
    with Cons.prems have "json_fields S attrs acc = Inr j"
      and "k \<notin> set (wire_names (filter serialized attrs))"
      by (simp_all add: json_fields_skip)
    from Cons.IH [OF this] show ?thesis .
  next
    case True
    from json_fields_step [OF Cons.prems(1) True] obtain p w where
      p: "json_schema_extra a = Some p" and
      r: "json_fields S attrs (AList.update (typeName p) (field_entry p (wire_value S w)) acc) = Inr j"
      by blast
    from True p Cons.prems(2) have ne: "k \<noteq> typeName p"
      and "k \<notin> set (wire_names (filter serialized attrs))"
      by (auto simp: wire_names_Cons)
    from Cons.IH [OF r this(2)] ne show ?thesis
      by (simp add: AList.update_conv')
  qed
qed

lemma json_fields_entry:
  "json_fields S attrs acc = Inr j \<Longrightarrow> a \<in> set attrs \<Longrightarrow> serialized a \<Longrightarrow>
   json_schema_extra a = Some p \<Longrightarrow> typeClass p \<noteq> ''compound'' \<Longrightarrow>
   distinct (wire_names attrs) \<Longrightarrow>
   map_of j (typeName p) = Some (field_entry p (wire_value S (attr_value a)))"
proof (induction attrs arbitrary: acc)
  case Nil
  then show ?case by simp
next
  case (Cons b attrs)
  from Cons.prems(6) have d: "distinct (wire_names attrs)"
    by (auto simp: wire_names_Cons split: option.splits)
  show ?case
  proof (cases "a = b")
    case True
    from json_fields_step [OF Cons.prems(1)] Cons.prems(3,4,5) True obtain w where
      r: "json_fields S attrs (AList.update (typeName p) (field_entry p (wire_value S w)) acc) = Inr j"
      and w: "w = attr_value a"
      by auto
    from Cons.prems(4,6) True have "typeName p \<notin> set (wire_names attrs)"
      by (simp add: wire_names_Cons)
    with wire_names_filter_subset [of serialized attrs]
    have "typeName p \<notin> set (wire_names (filter serialized attrs))" by blast
    from json_fields_untouched [OF r this] w show ?thesis
      by (simp add: AList.update_conv')
  next
    case False
    with Cons.prems(2) have m: "a \<in> set attrs" by simp
    show ?thesis
    proof (cases "serialized b")
      case False
      with Cons.prems(1) have "json_fields S attrs acc = Inr j" by (simp add: json_fields_skip)
      from Cons.IH [OF this m Cons.prems(3,4,5) d] show ?thesis .
    next
      case True
      from json_fields_step [OF Cons.prems(1) True] obtain q w where
        r: "json_fields S attrs (AList.update (typeName q) (field_entry q (wire_value S w)) acc) = Inr j"
        by blast
      from Cons.IH [OF r m Cons.prems(3,4,5) d] show ?thesis .
    qed
  qed
qed

lemma dataverse_dict_fields:
  "dataverse_dict S ob = Inr out \<Longrightarrow>
   \<exists>j. json_fields S (model_fields ob) [] = Inr j \<and> out = wrap_block (metadatablock_name ob) j"
  by (cases ob) (auto split: sum.splits)

lemma json_fields_nonempty_iff:
  assumes "json_fields S attrs [] = Inr j"
  shows "j \<noteq> [] \<longleftrightarrow> list_ex serialized attrs"
proof
  assume "j \<noteq> []"
  then obtain k where "k \<in> fst ` set j" by (cases j) auto
  from json_fields_keys [OF assms this] show "list_ex serialized attrs"
    by (auto simp: list_ex_iff)
next
  assume "list_ex serialized attrs"
  then obtain a where "a \<in> set attrs" "serialized a" by (auto simp: list_ex_iff)
  from json_fields_key_present [OF assms this] show "j \<noteq> []" by auto
qed

lemma wire_names_member:
  "a \<in> set attrs \<Longrightarrow> json_schema_extra a = Some p \<Longrightarrow> typeName p \<in> set (wire_names attrs)"
  by (induction attrs) (auto simp: wire_names_Cons)

lemma distinct_wire_names_eq:
  "distinct (wire_names attrs) \<Longrightarrow> a \<in> set attrs \<Longrightarrow> b \<in> set attrs \<Longrightarrow>
   json_schema_extra a = Some p \<Longrightarrow> json_schema_extra b = Some q \<Longrightarrow>
   typeName p = typeName q \<Longrightarrow> a = b"
proof (induction attrs)
  case Nil
  then show ?case by simp
next
  case (Cons c attrs)
  show ?case
  proof (cases "a = c")
    case True
    show ?thesis
    proof (rule ccontr)
      assume "a \<noteq> b"
      with True Cons.prems(3) have "b \<in> set attrs" by auto
      from wire_names_member [OF this Cons.prems(5)] Cons.prems(1,4,6) True
      show False by (simp add: wire_names_Cons)
    qed
  next
    case False
    with Cons.prems(2) have a: "a \<in> set attrs" by simp
    show ?thesis
    proof (cases "b = c")
      case True
      from wire_names_member [OF a Cons.prems(4)] Cons.prems(1,5,6) True
      show ?thesis by (simp add: wire_names_Cons)
    next
      case False
      with Cons.prems(3) have b: "b \<in> set attrs" by simp
      from Cons.prems(1) have "distinct (wire_names attrs)"
        by (auto simp: wire_names_Cons split: option.splits)
      from Cons.IH [OF this a b Cons.prems(4,5,6)] show ?thesis .
    qed
  qed
qed

lemma json_fields_compound:
  "json_fields S attrs acc = Inr j \<Longrightarrow> a \<in> set attrs \<Longrightarrow> serialized a \<Longrightarrow>
   json_schema_extra a = Some p \<Longrightarrow> typeClass p = ''compound'' \<Longrightarrow>
   (\<exists>xs. attr_value a = VList xs) \<or> (\<exists>c. attr_value a = VObj c)"
proof (induction attrs arbitrary: acc)
  case Nil
  then show ?case by simp
next
  case (Cons b attrs)
  show ?case
  proof (cases "a = b")
    case True
    from json_fields_step [OF Cons.prems(1)] Cons.prems(3,4,5) True show ?thesis by auto
  next
    case False
    with Cons.prems(2) have m: "a \<in> set attrs" by simp
    show ?thesis
    proof (cases "serialized b")
      case False
      with Cons.prems(1) have "json_fields S attrs acc = Inr j" by (simp add: json_fields_skip)
      from Cons.IH [OF this m Cons.prems(3,4,5)] show ?thesis .
    next
      case True
      from json_fields_step [OF Cons.prems(1) True] obtain q w where
        r: "json_fields S attrs (AList.update (typeName q) (field_entry q (wire_value S w)) acc) = Inr j"
        by blast
      from Cons.IH [OF r m Cons.prems(3,4,5)] show ?thesis .
    qed
  qed
qed

lemma json_fields_entry_names:
  assumes "json_fields S attrs [] = Inr j"
  shows "map entry_name (map snd j) = map (\<lambda>n. Some (VStr n)) (map fst j)"
proof -
  have "entry_name e = Some (VStr k)" if "(k, e) \<in> set j" for k e
    using json_fields_entries [OF assms _ that] by simp
  then show ?thesis by (induction j) auto
qed


subsection \<open>The example block\<close>

lemmas example_defs =
  no_str_def title_info_def subtitle_info_def notes_info_def example_title_def
  example_subtitle_def example_notes_def example_attrs_def example_block_def
  example_json_def example_wire_def

lemma example_not_helper:
  "\<not> is_helper_attr ''title''" "\<not> is_helper_attr ''subtitle''" "\<not> is_helper_attr ''notes''"
  by (simp_all add: is_helper_attr_def startswith_def)

lemma example_json_fields: "json_fields no_str example_attrs [] = Inr example_json"
  by (simp add: example_defs example_not_helper is_empty_def wire_value_def)

lemma example_dataverse_dict: "dataverse_dict no_str example_block = Inr example_wire"
  using example_json_fields
  by (simp add: example_block_def example_wire_def wrap_block_def example_json_def)

lemma example_distinct: "distinct (wire_names example_attrs)"
  by (simp add: example_defs wire_names_def)

section \<open>Facts about the dictionary export\<close>

lemma dump_attrs_Nil_iff:
  "dump_attrs en attrs = [] \<longleftrightarrow> list_all (\<lambda>b. en \<and> attr_value b = VNone) attrs"
proof (induction attrs)
  case Nil
  then show ?case by simp
next
  case (Cons a attrs)
  then show ?case by (cases a; cases en; simp)
qed

lemma model_dump_Nil_iff:
  "model_dump en c = [] \<longleftrightarrow> list_all (\<lambda>b. en \<and> attr_value b = VNone) (model_fields c)"
  by (cases c) (simp add: dump_attrs_Nil_iff)

lemma dump_list_Nil_iff: "dump_list en xs = [] \<longleftrightarrow> xs = []"
  by (cases xs) simp_all

lemma dump_items_Nil_iff: "dump_items en kvs = [] \<longleftrightarrow> kvs = []"
  by (cases kvs) auto

lemma dict_drops_iff:
  "dict_drops en v \<longleftrightarrow>
     (en \<and> v = VNone) \<or> model_dump_value en v = VDict [] \<or> model_dump_value en v = VList []"
  by (cases v)
     (simp_all add: dict_drops_def model_dump_Nil_iff dump_list_Nil_iff dump_items_Nil_iff)

lemma filter_dump_attrs:
  "filter (\<lambda>(key, v). v \<noteq> VDict [] \<and> v \<noteq> VList []) (dump_attrs en attrs)
     = map (\<lambda>a. (dump_key (attr_name a) (field_alias a), model_dump_value en (attr_value a)))
         (filter (\<lambda>a. \<not> dict_drops en (attr_value a)) attrs)"
proof (induction attrs)
  case Nil
  then show ?case by simp
next
  case (Cons a attrs)
  then show ?case by (cases a) (auto simp: dict_drops_iff)
qed

section \<open>Facts about the validation\<close>

lemma validate_paths_result:
  "validate_paths path fp ps (results, fe, out) =
     (results @ map (\<lambda>x. False) (filter (\<lambda>(p, v). v = VNone) (filter (\<lambda>(p, v). meta_path p = fp) ps)),
      fe \<or> filter (\<lambda>(p, v). meta_path p = fp) ps \<noteq> [],
      out @ map (\<lambda>x. FieldEmpty path) (filter (\<lambda>(p, v). v = VNone) (filter (\<lambda>(p, v). meta_path p = fp) ps)))"
proof (induction ps arbitrary: results fe out)
  case Nil
  then show ?case by simp
next
  case (Cons x ps)
  obtain p v where x: "x = (p, v)" by (cases x)
  show ?case unfolding x by (simp add: Cons)
qed

lemma filter_null_Nil_iff:
  "filter (\<lambda>(p, v). v = VNone) xs = [] \<longleftrightarrow> list_all (\<lambda>(p, v). v \<noteq> VNone) xs"
  by (induction xs) auto

lemma validate_paths_start:
  "validate_paths path fp (nob_paths (VDict (base_dict False block))) ([], False, []) =
     (map (\<lambda>x. False) (filter (\<lambda>(p, v). v = VNone) (concretizations block fp)),
      concretizations block fp \<noteq> [],
      map (\<lambda>x. FieldEmpty path) (filter (\<lambda>(p, v). v = VNone) (concretizations block fp)))"
  by (simp add: validate_paths_result concretizations_def del: filter_filter)

lemma validate_required_field_registered:
  assumes "split_char (CHR ''/'') path = name # field"
      and "map_of (metadatablocks ds) name = Some block"
  shows "validate_required_field ds path =
     (Inr (concretizations block (CHR ''/'' # join ''/'' field) \<noteq> []
           \<and> list_all (\<lambda>(dspath, val). val \<noteq> VNone)
                (concretizations block (CHR ''/'' # join ''/'' field))),
      map (\<lambda>x. FieldEmpty path)
        (filter (\<lambda>(p, v). v = VNone) (concretizations block (CHR ''/'' # join ''/'' field)))
      @ (if concretizations block (CHR ''/'' # join ''/'' field) = []
         then [FieldNotPresent path] else []))"
proof (cases "concretizations block (CHR ''/'' # join ''/'' field) = []")
  case True
  with assms show ?thesis
    by (simp add: validate_required_field_def validate_paths_start Let_def del: filter_filter)
next
  case False
  with assms show ?thesis
    by (simp add: validate_required_field_def validate_paths_start Let_def filter_null_Nil_iff
        del: filter_filter)
qed

lemma str_in_startswith: "startswith s x \<Longrightarrow> str_in x s"
  by (cases s) (auto simp: startswith_def)

lemma str_in_append: "str_in x (a @ x @ b)"
proof (induction a)
  case Nil
  have "startswith (x @ b) x" by (simp add: startswith_def)
  then show ?case by (simp add: str_in_startswith)
next
  case (Cons c a)
  then show ?case by simp
qed

lemma validate_required_field_missing:
  assumes "map_of (metadatablocks ds) (hd (split_char (CHR ''/'') path)) = None"
  shows "validate_required_field ds path =
     (Inl (ValueError (missing_block_message (hd (split_char (CHR ''/'') path)))), [])"
proof -
  obtain name field where s: "split_char (CHR ''/'') path = name # field"
    using split_char_not_Nil [of "CHR ''/''" path] by (cases "split_char (CHR ''/'') path") auto
  with assms have "map_of (metadatablocks ds) name = None" by simp
  with s show ?thesis
    by (simp add: validate_required_field_def Let_def)
qed

lemma validate_each_returns:
  "(\<And>p. p \<in> set ps \<Longrightarrow> \<exists>b. fst (validate_required_field ds p) = Inr b) \<Longrightarrow>
   validate_each ds ps results out =
     (Inr (results @ map (\<lambda>p. fst (validate_required_field ds p) = Inr True) ps),
      out @ concat (map (\<lambda>p. snd (validate_required_field ds p)) ps))"
proof (induction ps arbitrary: results out)
  case Nil
  then show ?case by simp
next
  case (Cons p ps)
  from Cons.prems [of p] obtain b where b: "fst (validate_required_field ds p) = Inr b" by auto
  then obtain w where w: "validate_required_field ds p = (Inr b, w)"
    by (cases "validate_required_field ds p") auto
  have "validate_each ds ps (results @ [b]) (out @ w) =
     (Inr ((results @ [b]) @ map (\<lambda>p. fst (validate_required_field ds p) = Inr True) ps),
      (out @ w) @ concat (map (\<lambda>p. snd (validate_required_field ds p)) ps))"
    by (rule Cons.IH) (simp add: Cons.prems)
  with w show ?case by simp
qed

lemma required_fields_citation:
  "p \<in> set REQUIRED_FIELDS \<Longrightarrow> \<exists>field. split_char (CHR ''/'') p = ''citation'' # field"
  by (auto simp: REQUIRED_FIELDS_def)

lemma split_required:
  "split_char (CHR ''/'') ''citation/title'' = [''citation'', ''title'']"
  "split_char (CHR ''/'') ''citation/author/name'' = [''citation'', ''author'', ''name'']"
  by simp_all

lemma two_authors_paths:
  "nob_paths (VDict (base_dict False two_authors_block)) =
     [([], VDict [(''title'', VStr ''T''),
                  (''author'', VList [VDict [(''name'', VNone)], VDict [(''name'', VStr ''Jane'')]])]),
      ([''title''], VStr ''T''),
      ([''author''], VList [VDict [(''name'', VNone)], VDict [(''name'', VStr ''Jane'')]]),
      ([''author'', ''0''], VDict [(''name'', VNone)]),
      ([''author'', ''0'', ''name''], VNone),
      ([''author'', ''1''], VDict [(''name'', VStr ''Jane'')]),
      ([''author'', ''1'', ''name''], VStr ''Jane'')]"
  by (simp add: nob_paths_def base_dict_def two_authors_block_def example_title_def
      author_named_def dump_key_def str_nat.simps digit_char_def)

lemma meta_path_examples:
  "meta_path [] = ''/''"
  "meta_path [''title''] = ''/title''"
  "meta_path [''author''] = ''/author''"
  "meta_path [''author'', ''0''] = ''/author''"
  "meta_path [''author'', ''0'', ''name''] = ''/author/name''"
  "meta_path [''author'', ''1''] = ''/author''"
  "meta_path [''author'', ''1'', ''name''] = ''/author/name''"
  by (simp_all add: meta_path_def path_str_def isdigit_def)

lemma two_authors_concretizations:
  "concretizations two_authors_block ''/author/name'' =
     [([''author'', ''0'', ''name''], VNone), ([''author'', ''1'', ''name''], VStr ''Jane'')]"
  "concretizations two_authors_block ''/title'' = [([''title''], VStr ''T'')]"
  by (simp_all add: concretizations_def two_authors_paths meta_path_examples)

lemma not_in_message:
  "\<not> str_in ''geospatial'' (missing_block_message ''citation'')"
  "\<not> str_in ''citation/subject'' assert_message"
  "\<not> str_in ''citation/author/name'' assert_message"
  by (simp_all add: missing_block_message_def assert_message_def startswith_def)

lemma example_paths:
  "nob_paths (VDict (base_dict False example_block)) =
     [([], VDict [(''title'', VStr ''T''), (''subtitle'', VNone), (''notes'', VStr [])]),
      ([''title''], VStr ''T''),
      ([''subtitle''], VNone),
      ([''notes''], VStr [])]"
  by (simp add: nob_paths_def base_dict_def example_block_def example_attrs_def example_title_def
      example_subtitle_def example_notes_def dump_key_def)

lemma example_meta_paths:
  "meta_path [''subtitle''] = ''/subtitle''"
  "meta_path [''notes''] = ''/notes''"
  by (simp_all add: meta_path_def path_str_def isdigit_def)

lemma example_ds_results:
  "validate_required_field example_ds ''citation/title'' = (Inr True, [])"
  "validate_required_field example_ds ''citation/author/name''
     = (Inr False, [FieldNotPresent ''citation/author/name''])"
  "validate_required_field example_ds ''citation/dataset_contact/name''
     = (Inr False, [FieldNotPresent ''citation/dataset_contact/name''])"
  "validate_required_field example_ds ''citation/dataset_contact/email''
     = (Inr False, [FieldNotPresent ''citation/dataset_contact/email''])"
  "validate_required_field example_ds ''citation/ds_description/value''
     = (Inr False, [FieldNotPresent ''citation/ds_description/value''])"
  "validate_required_field example_ds ''citation/subject''
     = (Inr False, [FieldNotPresent ''citation/subject''])"
  by (simp_all add: validate_required_field_def example_ds_def example_paths
      meta_path_examples example_meta_paths)

section \<open>Facts about adding a directory\<close>

lemma has_ignore_dirs_iff:
  "has_ignore_dirs path dirpath ignores \<longleftrightarrow>
     (\<exists>ignore\<in>set ignores. ignore \<noteq> [] \<and>
        (\<exists>dir\<in>set (rel_dirs path dirpath). str_in (replace_str ''/'' [] ignore) dir))"
  by (auto simp: has_ignore_dirs_def ignore_checks_def list_ex_iff split: if_splits)

lemma ingest_files_filter:
  "ingest_files dirpath dir path (filter (\<lambda>name. \<not> startswith name ''.'') names) fs
     = ingest_files dirpath dir path names fs"
proof (induction names arbitrary: fs)
  case Nil
  then show ?case by simp
next
  case (Cons name names)
  then show ?case by (simp split: sum.splits)
qed

lemma walk_loop_retained:
  "walk_loop dirpath dir include_hidden ignores (retained dirpath ignores entries) fs
     = walk_loop dirpath dir include_hidden ignores entries fs"
proof (induction entries arbitrary: fs)
  case Nil
  then show ?case by (simp add: retained_def)
next
  case (Cons e entries)
  obtain path names where e: "e = (path, names)" by (cases e)
  have r: "retained dirpath ignores ((path, names) # entries) =
     (if has_ignore_dirs path dirpath ignores then retained dirpath ignores entries
      else (path, filter (\<lambda>name. \<not> startswith name ''.'') names) # retained dirpath ignores entries)"
    by (simp add: retained_def)
  show ?case unfolding e r using Cons.IH
    by (cases include_hidden) (simp_all add: ingest_files_filter split: prod.splits sum.splits)
qed

section \<open>Claims\<close>

text \<open>
  C7. The key transform maps \<open>this_is_snake\<close> to \<open>ThisIsSnake\<close> and \<open>a__b\<close> to \<open>A_B\<close>.
  In every word, two consecutive underscores enclose an empty segment, and that segment
  is rendered as one literal underscore between the renderings of what stands before and
  after it; the rendering of a segment is never the empty string, and the rendering of
  the empty segment is the underscore.
\<close>

theorem snake_to_camel_empty_segment:
  "snake_to_camel ''this_is_snake'' = ''ThisIsSnake''
   \<and> snake_to_camel ''a__b'' = ''A_B''
   \<and> snake_to_camel (u @ ''__'' @ v) = snake_to_camel u @ ''_'' @ snake_to_camel v
   \<and> camel_segment [] = ''_''
   \<and> camel_segment x \<noteq> []"
proof -
  have a: "snake_to_camel ''this_is_snake'' = ''ThisIsSnake''"
    by (simp add: snake_to_camel_def camel_segment_def upper_char_def lower_char_def
        lowercase_letters_def uppercase_letters_def)
  have b: "snake_to_camel ''a__b'' = ''A_B''"
    by (simp add: snake_to_camel_def camel_segment_def upper_char_def lower_char_def
        lowercase_letters_def uppercase_letters_def)
  have "split_char (CHR ''_'') (u @ ''__'' @ v)
          = split_char (CHR ''_'') u @ split_char (CHR ''_'') (CHR ''_'' # v)"
    using split_char_append [of "CHR ''_''" u "CHR ''_'' # v"] by simp
  then have c: "snake_to_camel (u @ ''__'' @ v) = snake_to_camel u @ ''_'' @ snake_to_camel v"
    by (simp add: snake_to_camel_def camel_segment_def)
  have d: "camel_segment [] = ''_''"
    by (simp add: camel_segment_def)
  from a b c d camel_segment_not_Nil show ?thesis by blast
qed

text \<open>
  C2. Serialization to the wire format omits every attribute that is empty. The result
  for an object is the result for the object without its empty attributes. And when the
  serialization of an object succeeds, an attribute of it has a descriptor and holds
  \<^verbatim>\<open>None\<close>, the empty list or a nested object whose \<^verbatim>\<open>dict(exclude_none=True)\<close> is empty,
  and the wire names of the object are distinct, then the result is built, bare or
  wrapped, from a field mapping in which the wire name of that attribute is not a key
  and no field entry carries it as its \<^verbatim>\<open>typeName\<close>.
\<close>

theorem dataverse_dict_omits_empty:
  "dataverse_dict S (Obj bn (filter (\<lambda>a. \<not> is_empty (attr_value a)) attrs))
     = dataverse_dict S (Obj bn attrs)
   \<and> (dataverse_dict S (Obj bn attrs) = Inr out \<and> a \<in> set attrs \<and> json_schema_extra a = Some p
        \<and> (attr_value a = VNone \<or> attr_value a = VList []
             \<or> (\<exists>c. attr_value a = VObj c \<and> base_dict True c = []))
        \<and> distinct (wire_names attrs)
      \<longrightarrow> (\<exists>j. out = wrap_block bn j \<and> typeName p \<notin> fst ` set j
                \<and> Some (VStr (typeName p)) \<notin> entry_name ` set (map snd j)))"
proof (intro conjI impI)
  show "dataverse_dict S (Obj bn (filter (\<lambda>a. \<not> is_empty (attr_value a)) attrs))
          = dataverse_dict S (Obj bn attrs)"
    by (simp add: json_fields_filter)
next
  assume h: "dataverse_dict S (Obj bn attrs) = Inr out \<and> a \<in> set attrs \<and> json_schema_extra a = Some p
        \<and> (attr_value a = VNone \<or> attr_value a = VList []
             \<or> (\<exists>c. attr_value a = VObj c \<and> base_dict True c = []))
        \<and> distinct (wire_names attrs)"
  then have e: "is_empty (attr_value a)" by (simp add: is_empty_iff)
  from h dataverse_dict_fields [of S "Obj bn attrs" out] obtain j where
    j: "json_fields S attrs [] = Inr j" and out: "out = wrap_block bn j"
    by auto
  have k: "typeName p \<notin> fst ` set j"
  proof
    assume "typeName p \<in> fst ` set j"
    from json_fields_keys [OF j this] obtain b q where
      b: "b \<in> set attrs" "serialized b" "json_schema_extra b = Some q" "typeName q = typeName p"
      by auto
    from h b have "a = b"
      using distinct_wire_names_eq [of attrs a b p q] by simp
    with e b(2) show False by (simp add: serialized_def)
  qed
  have "Some (VStr (typeName p)) \<notin> entry_name ` set (map snd j)"
  proof
    assume "Some (VStr (typeName p)) \<in> entry_name ` set (map snd j)"
    then obtain k' e' where m: "(k', e') \<in> set j" and n: "entry_name e' = Some (VStr (typeName p))"
      by force
    from json_fields_entries [OF j _ m] n have "k' = typeName p" by simp
    with m k show False by force
  qed
  with k out show "\<exists>j. out = wrap_block bn j \<and> typeName p \<notin> fst ` set j
                \<and> Some (VStr (typeName p)) \<notin> entry_name ` set (map snd j)"
    by blast
qed

theorem dataverse_dict_omits_empty_witness:
  "dataverse_dict no_str example_block = Inr example_wire
   \<and> attr_value example_subtitle = VNone
   \<and> (\<exists>j. example_wire = wrap_block (Some ''citation'') j \<and> ''subtitle'' \<notin> fst ` set j
           \<and> Some (VStr ''subtitle'') \<notin> entry_name ` set (map snd j))"
proof -
  have v: "attr_value example_subtitle = VNone"
    by (simp add: example_subtitle_def)
  have m: "example_subtitle \<in> set example_attrs"
    by (simp add: example_attrs_def)
  have e: "json_schema_extra example_subtitle = Some subtitle_info"
    by (simp add: example_subtitle_def)
  have n: "typeName subtitle_info = ''subtitle''"
    by (simp add: subtitle_info_def)
  have d: "dataverse_dict no_str (Obj (Some ''citation'') example_attrs) = Inr example_wire"
    using example_dataverse_dict by (simp only: example_block_def)
  have h: "dataverse_dict no_str (Obj (Some ''citation'') example_attrs) = Inr example_wire
        \<and> example_subtitle \<in> set example_attrs
        \<and> json_schema_extra example_subtitle = Some subtitle_info
        \<and> (attr_value example_subtitle = VNone \<or> attr_value example_subtitle = VList []
             \<or> (\<exists>c. attr_value example_subtitle = VObj c \<and> base_dict True c = []))
        \<and> distinct (wire_names example_attrs)"
    by (intro conjI disjI1 d m e v example_distinct)
  note r = dataverse_dict_omits_empty
             [of no_str "Some ''citation''" example_attrs example_wire example_subtitle subtitle_info,
              THEN conjunct2, THEN mp, OF h]
  show ?thesis
  proof (intro conjI)
    show "dataverse_dict no_str example_block = Inr example_wire"
      by (rule example_dataverse_dict)
    show "attr_value example_subtitle = VNone" by (rule v)
    show "\<exists>j. example_wire = wrap_block (Some ''citation'') j \<and> ''subtitle'' \<notin> fst ` set j
           \<and> Some (VStr ''subtitle'') \<notin> entry_name ` set (map snd j)"
      by (rule r [unfolded n])
  qed
qed

text \<open>
  C3. When the serialization of an object succeeds, its loop has built a field mapping
  \<open>j\<close>, which is not empty exactly when some attribute was serialized. The result is
  \<^verbatim>\<open>{blockName: {"fields": [...]}}\<close> over the values of \<open>j\<close> when the object has a block
  name and \<open>j\<close> is not empty, and the bare mapping \<open>j\<close> in every other case. With
  distinct wire names, the entries of \<open>j\<close> are those of the serialized attributes in
  declaration order.
\<close>

theorem dataverse_dict_wrapping:
  assumes "dataverse_dict S ob = Inr out"
  shows "\<exists>j. json_fields S (model_fields ob) [] = Inr j
          \<and> (j \<noteq> [] \<longleftrightarrow> list_ex serialized (model_fields ob))
          \<and> out = (case metadatablock_name ob of
                     Some name \<Rightarrow>
                       if j \<noteq> [] then VDict [(name, VDict [(''fields'', VList (map snd j))])]
                       else VDict j
                   | None \<Rightarrow> VDict j)
          \<and> (distinct (wire_names (model_fields ob)) \<longrightarrow>
               map entry_name (map snd j)
                 = map (\<lambda>n. Some (VStr n)) (wire_names (filter serialized (model_fields ob))))"
proof -
  from dataverse_dict_fields [OF assms] obtain j where
    j: "json_fields S (model_fields ob) [] = Inr j" and
    out: "out = wrap_block (metadatablock_name ob) j"
    by blast
  have w: "out = (case metadatablock_name ob of
                     Some name \<Rightarrow>
                       if j \<noteq> [] then VDict [(name, VDict [(''fields'', VList (map snd j))])]
                       else VDict j
                   | None \<Rightarrow> VDict j)"
    using out by (simp add: wrap_block_def split: option.splits)
  have o: "map entry_name (map snd j)
                 = map (\<lambda>n. Some (VStr n)) (wire_names (filter serialized (model_fields ob)))"
    if d: "distinct (wire_names (model_fields ob))"
  proof -
    from distinct_wire_names_filter [OF d]
    have "distinct (map fst [] @ wire_names (filter serialized (model_fields ob)))" by simp
    from json_fields_order [OF j this] json_fields_entry_names [OF j] show ?thesis by simp
  qed
  from j json_fields_nonempty_iff [OF j] w o show ?thesis by blast
qed

theorem dataverse_dict_wrapping_witness:
  "dataverse_dict no_str example_block = Inr example_wire
   \<and> (\<exists>j. json_fields no_str example_attrs [] = Inr j \<and> j \<noteq> []
          \<and> example_wire = VDict [(''citation'', VDict [(''fields'', VList (map snd j))])]
          \<and> map entry_name (map snd j) = [Some (VStr ''title''), Some (VStr ''notesText'')])"
proof -
  have mf: "model_fields example_block = example_attrs"
    "metadatablock_name example_block = Some ''citation''"
    by (simp_all add: example_block_def)
  have s: "filter serialized example_attrs = [example_title, example_notes]"
    by (simp add: example_attrs_def example_title_def example_subtitle_def example_notes_def
        serialized_def example_not_helper is_empty_def)
  have w: "wire_names [example_title, example_notes] = [''title'', ''notesText'']"
    by (simp add: example_title_def example_notes_def title_info_def notes_info_def wire_names_def)
  have x: "list_ex serialized example_attrs"
    by (simp add: example_attrs_def example_title_def serialized_def example_not_helper is_empty_def)
  from dataverse_dict_wrapping [OF example_dataverse_dict] obtain j where
    j: "json_fields no_str (model_fields example_block) [] = Inr j" and
    ne: "j \<noteq> [] \<longleftrightarrow> list_ex serialized (model_fields example_block)" and
    out: "example_wire = (case metadatablock_name example_block of
                     Some name \<Rightarrow>
                       if j \<noteq> [] then VDict [(name, VDict [(''fields'', VList (map snd j))])]
                       else VDict j
                   | None \<Rightarrow> VDict j)" and
    ord: "distinct (wire_names (model_fields example_block)) \<longrightarrow>
               map entry_name (map snd j)
                 = map (\<lambda>n. Some (VStr n)) (wire_names (filter serialized (model_fields example_block)))"
    by (elim exE conjE)
  from j have j': "json_fields no_str example_attrs [] = Inr j" by (simp only: mf)
  from ne x have n: "j \<noteq> []" by (simp only: mf)
  from out n have o: "example_wire = VDict [(''citation'', VDict [(''fields'', VList (map snd j))])]"
    by (simp add: mf)
  from ord example_distinct
  have "map entry_name (map snd j) = map (\<lambda>n. Some (VStr n)) (wire_names (filter serialized example_attrs))"
    by (simp only: mf)
  then have e: "map entry_name (map snd j) = [Some (VStr ''title''), Some (VStr ''notesText'')]"
    by (simp add: s w)
  show ?thesis
  proof (intro conjI exI [of _ j])
    show "dataverse_dict no_str example_block = Inr example_wire" by (rule example_dataverse_dict)
    show "json_fields no_str example_attrs [] = Inr j" by (rule j')
    show "j \<noteq> []" by (rule n)
    show "example_wire = VDict [(''citation'', VDict [(''fields'', VList (map snd j))])]" by (rule o)
    show "map entry_name (map snd j) = [Some (VStr ''title''), Some (VStr ''notesText'')]" by (rule e)
  qed
qed

text \<open>
  C10. The emptiness test holds of \<^verbatim>\<open>None\<close>, of the empty list and of a nested object whose
  \<^verbatim>\<open>dict(exclude_none=True)\<close> is empty, and of nothing else; in particular not of the empty
  string and not of an empty plain dictionary. When the serialization of an object
  succeeds, an attribute of it that holds one of these two and is not a helper has a
  descriptor, and its wire name is a key of the field mapping the result is built from;
  with distinct wire names, its field entry, with the value unchanged, is among the
  entries.
\<close>

theorem empty_string_and_mapping_not_elided:
  "(is_empty v \<longleftrightarrow> v = VNone \<or> v = VList [] \<or> (\<exists>c. v = VObj c \<and> base_dict True c = []))
   \<and> \<not> is_empty (VStr []) \<and> \<not> is_empty (VDict [])
   \<and> (dataverse_dict S ob = Inr out \<and> a \<in> set (model_fields ob) \<and> \<not> is_helper_attr (attr_name a)
        \<and> (attr_value a = VStr [] \<or> attr_value a = VDict [])
      \<longrightarrow> (\<exists>p j. json_schema_extra a = Some p \<and> out = wrap_block (metadatablock_name ob) j
               \<and> typeName p \<in> fst ` set j
               \<and> (distinct (wire_names (model_fields ob))
                    \<longrightarrow> field_entry p (attr_value a) \<in> set (map snd j))))"
proof (intro conjI impI)
  show "is_empty v \<longleftrightarrow> v = VNone \<or> v = VList [] \<or> (\<exists>c. v = VObj c \<and> base_dict True c = [])"
    by (rule is_empty_iff)
  show "\<not> is_empty (VStr [])" by (simp add: is_empty_def)
  show "\<not> is_empty (VDict [])" by (simp add: is_empty_def)
next
  assume h: "dataverse_dict S ob = Inr out \<and> a \<in> set (model_fields ob) \<and> \<not> is_helper_attr (attr_name a)
        \<and> (attr_value a = VStr [] \<or> attr_value a = VDict [])"
  then have s: "serialized a" by (auto simp: serialized_def is_empty_def)
  from h have m: "a \<in> set (model_fields ob)" by simp
  from h dataverse_dict_fields [of S ob out] obtain j where
    j: "json_fields S (model_fields ob) [] = Inr j" and
    out: "out = wrap_block (metadatablock_name ob) j"
    by auto
  from json_fields_key_present [OF j m s] obtain p where
    p: "json_schema_extra a = Some p" and k: "typeName p \<in> fst ` set j"
    by blast
  have "field_entry p (attr_value a) \<in> set (map snd j)"
    if d: "distinct (wire_names (model_fields ob))"
  proof -
    from json_fields_compound [OF j m s p] h have nc: "typeClass p \<noteq> ''compound''" by auto
    from h have "wire_value S (attr_value a) = attr_value a" by (auto simp: wire_value_def)
    with json_fields_entry [OF j m s p nc d]
    have "map_of j (typeName p) = Some (field_entry p (attr_value a))" by simp
    from map_of_SomeD [OF this] show ?thesis by force
  qed
  with p k out show "\<exists>p j. json_schema_extra a = Some p \<and> out = wrap_block (metadatablock_name ob) j
               \<and> typeName p \<in> fst ` set j
               \<and> (distinct (wire_names (model_fields ob))
                    \<longrightarrow> field_entry p (attr_value a) \<in> set (map snd j))"
    by blast
qed

theorem empty_string_and_mapping_not_elided_witness:
  "dataverse_dict no_str example_block = Inr example_wire
   \<and> attr_value example_notes = VStr []
   \<and> (\<exists>j. example_wire = wrap_block (Some ''citation'') j \<and> ''notesText'' \<in> fst ` set j
          \<and> field_entry notes_info (VStr []) \<in> set (map snd j))"
proof -
  have v: "attr_value example_notes = VStr []" by (simp add: example_notes_def)
  have m: "example_notes \<in> set (model_fields example_block)"
    by (simp add: example_block_def example_attrs_def)
  have nh: "\<not> is_helper_attr (attr_name example_notes)"
    by (simp add: example_notes_def example_not_helper)
  have h: "dataverse_dict no_str example_block = Inr example_wire
        \<and> example_notes \<in> set (model_fields example_block)
        \<and> \<not> is_helper_attr (attr_name example_notes)
        \<and> (attr_value example_notes = VStr [] \<or> attr_value example_notes = VDict [])"
    by (intro conjI disjI1 example_dataverse_dict m nh v)
  have d: "distinct (wire_names (model_fields example_block))"
    using example_distinct by (simp add: example_block_def)
  have e: "json_schema_extra example_notes = Some notes_info"
    by (simp add: example_notes_def)
  have n: "typeName notes_info = ''notesText''" by (simp add: notes_info_def)
  have b: "metadatablock_name example_block = Some ''citation''"
    by (simp add: example_block_def)
  note r = empty_string_and_mapping_not_elided
             [of VNone no_str example_block example_wire example_notes,
              THEN conjunct2, THEN conjunct2, THEN conjunct2, THEN mp, OF h]
  then obtain p j where
    p: "json_schema_extra example_notes = Some p" and
    o: "example_wire = wrap_block (metadatablock_name example_block) j" and
    k: "typeName p \<in> fst ` set j" and
    f: "distinct (wire_names (model_fields example_block))
          \<longrightarrow> field_entry p (attr_value example_notes) \<in> set (map snd j)"
    by (elim exE conjE)
  from p e have pe: "p = notes_info" by simp
  show ?thesis
  proof (intro conjI exI [of _ j])
    show "dataverse_dict no_str example_block = Inr example_wire" by (rule example_dataverse_dict)
    show "attr_value example_notes = VStr []" by (rule v)
    show "example_wire = wrap_block (Some ''citation'') j" using o by (simp only: b)
    show "''notesText'' \<in> fst ` set j" using k by (simp only: pe n)
    show "field_entry notes_info (VStr []) \<in> set (map snd j)"
      using f d by (simp only: pe v simp_thms)
  qed
qed

text \<open>
  C6, as the code has it. \<^verbatim>\<open>dict(exclude_none=e)\<close> returns, in declaration order and keyed
  by alias, the dump of the attributes of the object, without those whose value is the
  empty list, the empty dictionary or a nested object whose own dump is empty, and,
  only when \<open>e\<close> is set, without those whose value is \<^verbatim>\<open>None\<close>. The values of the entries
  are the dump of pydantic as it is: nothing is removed inside a nested object but what
  \<^verbatim>\<open>exclude_none\<close> removes.
\<close>

theorem base_dict_snapshot:
  "base_dict exclude_none ob
     = map (\<lambda>a. (dump_key (attr_name a) (field_alias a),
                  model_dump_value exclude_none (attr_value a)))
         (filter (\<lambda>a. \<not> dict_drops exclude_none (attr_value a)) (model_fields ob))"
  by (cases ob) (simp add: base_dict_def filter_dump_attrs)

text \<open>
  C6 as stated fails. Called without arguments, \<^verbatim>\<open>dict()\<close> keeps an attribute that is
  \<^verbatim>\<open>None\<close>. And an author whose only attribute is an empty list is empty by the test of
  the wire serialization, yet \<^verbatim>\<open>dict(exclude_none=True)\<close> of the object that holds it keeps
  it, with the empty list inside.
\<close>

theorem base_dict_keeps_null:
  "base_dict False (Obj None [example_subtitle]) = [(''subtitle'', VNone)]
   \<and> is_empty (VObj example_author)
   \<and> base_dict True (Obj None [Attr ''author'' None (Some author_info) (VObj example_author)])
       = [(''author'', VDict [(''affiliations'', VList [])])]"
  by (simp add: base_dict_def example_subtitle_def example_author_def is_empty_def dump_key_def)

text \<open>
  C8. For every dataset and every local path, remote directory and description: after
  a call of \<^verbatim>\<open>add_file\<close> with them, a second call with the same arguments raises
  \<open>FileExistsError\<close> and leaves the dataset, and so the file list and its length, as the
  first call left them.
\<close>

theorem add_file_twice:
  "fst (add_file lpath dir descr (snd (add_file lpath dir descr ds)))
     = Inl (FileExistsError ''File has already been added to the dataset'')
   \<and> snd (add_file lpath dir descr (snd (add_file lpath dir descr ds)))
       = snd (add_file lpath dir descr ds)
   \<and> files (snd (add_file lpath dir descr (snd (add_file lpath dir descr ds))))
       = files (snd (add_file lpath dir descr ds))
   \<and> length (files (snd (add_file lpath dir descr (snd (add_file lpath dir descr ds)))))
       = length (files (snd (add_file lpath dir descr ds)))"
  by (simp add: add_file_def Let_def same_file_def)

text \<open>
  C1, as the code has it. For a required path whose block is registered on the dataset,
  the validator returns pass if and only if the field path has at least one
  concretization in the \<^verbatim>\<open>dict()\<close> of the block and the value of every one of its
  concretizations is not \<^verbatim>\<open>None\<close>.
\<close>

theorem validate_required_field_iff:
  assumes "split_char (CHR ''/'') path = name # field"
      and "map_of (metadatablocks ds) name = Some block"
  shows "fst (validate_required_field ds path) =
     Inr (concretizations block (''/'' @ join ''/'' field) \<noteq> []
          \<and> list_all (\<lambda>(dspath, val). val \<noteq> VNone)
               (concretizations block (''/'' @ join ''/'' field)))"
  using validate_required_field_registered [OF assms] by simp

theorem validate_required_field_iff_witness:
  "fst (validate_required_field two_authors_ds ''citation/title'') = Inr True"
proof -
  have m: "map_of (metadatablocks two_authors_ds) ''citation'' = Some two_authors_block"
    by (simp add: two_authors_ds_def)
  from validate_required_field_iff [OF split_required(1) m]
  show ?thesis by (simp add: two_authors_concretizations)
qed

text \<open>
  C1 as stated fails. With two authors of whom the second has the name \<^verbatim>\<open>Jane\<close> and the
  first has none, the path \<^verbatim>\<open>citation/author/name\<close> has a concretization whose value is not
  \<^verbatim>\<open>None\<close>, and the validator returns fail.
\<close>

theorem validate_required_field_all_needed:
  "fst (validate_required_field two_authors_ds ''citation/author/name'') = Inr False
   \<and> ([''author'', ''1'', ''name''], VStr ''Jane'')
       \<in> set (concretizations two_authors_block ''/author/name'')"
proof -
  have m: "map_of (metadatablocks two_authors_ds) ''citation'' = Some two_authors_block"
    by (simp add: two_authors_ds_def)
  from validate_required_field_registered [OF split_required(2) m]
  show ?thesis by (simp add: two_authors_concretizations)
qed

text \<open>
  C4, as the code has it. On a dataset with a citation block, the validation evaluates
  every required path: what it prints is what the validations of all required paths
  print, in order, and that holds a line naming every path that fails. It raises nothing
  when every path passes, and otherwise raises one error, whose message is the same
  text whatever paths fail.
\<close>

theorem validate_required_fields_result:
  assumes "map_of (metadatablocks ds) ''citation'' = Some block"
  shows "raised_message (fst (validate_required_fields ds)) =
           (if list_all (\<lambda>p. fst (validate_required_field ds p) = Inr True) REQUIRED_FIELDS
            then None else Some assert_message)
         \<and> snd (validate_required_fields ds) =
             concat (map (\<lambda>p. snd (validate_required_field ds p)) REQUIRED_FIELDS)
         \<and> (\<forall>p\<in>set REQUIRED_FIELDS.
               fst (validate_required_field ds p) \<noteq> Inr True \<longrightarrow>
               FieldEmpty p \<in> set (snd (validate_required_fields ds))
               \<or> FieldNotPresent p \<in> set (snd (validate_required_fields ds)))"
proof -
  have reg: "\<exists>field. validate_required_field ds p =
     (Inr (concretizations block (CHR ''/'' # join ''/'' field) \<noteq> []
           \<and> list_all (\<lambda>(dspath, val). val \<noteq> VNone)
                (concretizations block (CHR ''/'' # join ''/'' field))),
      map (\<lambda>x. FieldEmpty p)
        (filter (\<lambda>(p, v). v = VNone) (concretizations block (CHR ''/'' # join ''/'' field)))
      @ (if concretizations block (CHR ''/'' # join ''/'' field) = []
         then [FieldNotPresent p] else []))"
    if "p \<in> set REQUIRED_FIELDS" for p
  proof -
    from required_fields_citation [OF that] obtain field where
      "split_char (CHR ''/'') p = ''citation'' # field" by blast
    from validate_required_field_registered [OF this assms] show ?thesis by blast
  qed
  have ret: "\<exists>b. fst (validate_required_field ds p) = Inr b" if "p \<in> set REQUIRED_FIELDS" for p
    using reg [OF that] by auto
  have each: "validate_each ds REQUIRED_FIELDS [] [] =
     (Inr (map (\<lambda>p. fst (validate_required_field ds p) = Inr True) REQUIRED_FIELDS),
      concat (map (\<lambda>p. snd (validate_required_field ds p)) REQUIRED_FIELDS))"
    using validate_each_returns [of REQUIRED_FIELDS ds "[]" "[]"] ret by simp
  have all: "list_all id (map (\<lambda>p. fst (validate_required_field ds p) = Inr True) REQUIRED_FIELDS)
     = list_all (\<lambda>p. fst (validate_required_field ds p) = Inr True) REQUIRED_FIELDS"
    by (simp add: list_all_iff)
  have res: "validate_required_fields ds =
           (if list_all (\<lambda>p. fst (validate_required_field ds p) = Inr True) REQUIRED_FIELDS
            then Inr () else Inl (AssertionError assert_message),
            concat (map (\<lambda>p. snd (validate_required_field ds p)) REQUIRED_FIELDS))"
    by (simp add: validate_required_fields_def each all)
  have msg: "raised_message (fst (validate_required_fields ds)) =
           (if list_all (\<lambda>p. fst (validate_required_field ds p) = Inr True) REQUIRED_FIELDS
            then None else Some assert_message)"
    by (simp add: res raised_message_def error_message_def)
  have out: "snd (validate_required_fields ds) =
             concat (map (\<lambda>p. snd (validate_required_field ds p)) REQUIRED_FIELDS)"
    by (simp add: res)
  have warn: "FieldEmpty p \<in> set (snd (validate_required_fields ds))
               \<or> FieldNotPresent p \<in> set (snd (validate_required_fields ds))"
    if p: "p \<in> set REQUIRED_FIELDS" and f: "fst (validate_required_field ds p) \<noteq> Inr True" for p
  proof -
    from reg [OF p] obtain field where
      r: "validate_required_field ds p =
     (Inr (concretizations block (CHR ''/'' # join ''/'' field) \<noteq> []
           \<and> list_all (\<lambda>(dspath, val). val \<noteq> VNone)
                (concretizations block (CHR ''/'' # join ''/'' field))),
      map (\<lambda>x. FieldEmpty p)
        (filter (\<lambda>(p, v). v = VNone) (concretizations block (CHR ''/'' # join ''/'' field)))
      @ (if concretizations block (CHR ''/'' # join ''/'' field) = []
         then [FieldNotPresent p] else []))" by blast
    let ?c = "concretizations block (CHR ''/'' # join ''/'' field)"
    have own: "FieldEmpty p \<in> set (snd (validate_required_field ds p))
               \<or> FieldNotPresent p \<in> set (snd (validate_required_field ds p))"
    proof (cases "?c = []")
      case True
      with r show ?thesis by simp
    next
      case False
      with r f have "\<not> list_all (\<lambda>(dspath, val). val \<noteq> VNone) ?c" by simp
      then have "filter (\<lambda>(p, v). v = VNone) ?c \<noteq> []" by (simp add: filter_null_Nil_iff)
      with r show ?thesis by (cases "filter (\<lambda>(p, v). v = VNone) ?c") auto
    qed
    from p have "set (snd (validate_required_field ds p))
        \<subseteq> set (concat (map (\<lambda>p. snd (validate_required_field ds p)) REQUIRED_FIELDS))"
      by auto
    with own out show ?thesis by auto
  qed
  from msg out warn show ?thesis by blast
qed

theorem validate_required_fields_result_witness:
  "raised_message (fst (validate_required_fields example_ds)) = Some assert_message
   \<and> fst (validate_required_field example_ds ''citation/subject'') = Inr False
   \<and> FieldNotPresent ''citation/subject'' \<in> set (snd (validate_required_fields example_ds))"
proof -
  have m: "map_of (metadatablocks example_ds) ''citation'' = Some example_block"
    by (simp add: example_ds_def)
  note r = validate_required_fields_result [OF m]
  from r have "raised_message (fst (validate_required_fields example_ds)) =
           (if list_all (\<lambda>p. fst (validate_required_field example_ds p) = Inr True) REQUIRED_FIELDS
            then None else Some assert_message)"
    by (rule conjunct1)
  then have a: "raised_message (fst (validate_required_fields example_ds)) = Some assert_message"
    by (simp add: REQUIRED_FIELDS_def example_ds_results)
  have p: "''citation/subject'' \<in> set REQUIRED_FIELDS" by (simp add: REQUIRED_FIELDS_def)
  have f: "fst (validate_required_field example_ds ''citation/subject'') = Inr False"
    by (simp add: example_ds_results)
  from r p f have "FieldEmpty ''citation/subject'' \<in> set (snd (validate_required_fields example_ds))
       \<or> FieldNotPresent ''citation/subject'' \<in> set (snd (validate_required_fields example_ds))"
    by auto
  moreover have "FieldEmpty ''citation/subject'' \<notin> set (snd (validate_required_fields example_ds))"
    by (simp add: validate_required_fields_def REQUIRED_FIELDS_def example_ds_results)
  ultimately show ?thesis using a f by blast
qed

text \<open>
  C4 as stated fails. On the dataset with the example block five required paths fail,
  and the message of the error raised names neither \<^verbatim>\<open>citation/author/name\<close> nor
  \<^verbatim>\<open>citation/subject\<close>; the failing paths are in the printed lines only.
\<close>

theorem assert_message_names_no_path:
  "raised_message (fst (validate_required_fields example_ds)) = Some assert_message
   \<and> snd (validate_required_fields example_ds) =
       [FieldNotPresent ''citation/author/name'',
        FieldNotPresent ''citation/dataset_contact/name'',
        FieldNotPresent ''citation/dataset_contact/email'',
        FieldNotPresent ''citation/ds_description/value'',
        FieldNotPresent ''citation/subject'']
   \<and> \<not> str_in ''citation/author/name'' assert_message
   \<and> \<not> str_in ''citation/subject'' assert_message"
  using not_in_message(2,3)
  by (simp add: validate_required_fields_def REQUIRED_FIELDS_def example_ds_results
      raised_message_def error_message_def)

text \<open>
  C5, as the code has it. For a required path whose leading block name is not registered
  on the dataset, the validator raises \<open>ValueError\<close> at once, without printing and without
  returning fail; the message names the missing block; and the loop over the required
  paths ends there, with the paths after it not validated.
\<close>

theorem missing_block_raises:
  assumes "map_of (metadatablocks ds) (hd (split_char (CHR ''/'') path)) = None"
  shows "validate_required_field ds path =
           (Inl (ValueError (missing_block_message (hd (split_char (CHR ''/'') path)))), [])
         \<and> str_in (hd (split_char (CHR ''/'') path))
             (missing_block_message (hd (split_char (CHR ''/'') path)))
         \<and> validate_each ds (path # rest) results out =
             (Inl (ValueError (missing_block_message (hd (split_char (CHR ''/'') path)))), out)"
proof -
  note m = validate_required_field_missing [OF assms]
  have "str_in (hd (split_char (CHR ''/'') path))
          (missing_block_message (hd (split_char (CHR ''/'') path)))"
    unfolding missing_block_message_def
    using str_in_append [of "hd (split_char (CHR ''/'') path)" "''Metadatablock '' @ [CHR 0x27]"]
    by simp
  with m show ?thesis by simp
qed

theorem missing_block_raises_witness:
  "validate_required_field geo_ds ''citation/title''
       = (Inl (ValueError (missing_block_message ''citation'')), [])
   \<and> str_in ''citation'' (missing_block_message ''citation'')
   \<and> validate_each geo_ds [''citation/title'', ''citation/subject''] [] []
       = (Inl (ValueError (missing_block_message ''citation'')), [])"
proof -
  have h: "hd (split_char (CHR ''/'') ''citation/title'') = ''citation''" by simp
  have "map_of (metadatablocks geo_ds) (hd (split_char (CHR ''/'') ''citation/title'')) = None"
    by (simp add: geo_ds_def)
  from missing_block_raises [OF this, of "[''citation/subject'']" "[]" "[]"]
  show ?thesis by (simp only: h)
qed

text \<open>
  C5 as stated fails. On a dataset whose only block is \<^verbatim>\<open>geospatial\<close>, the message of the
  error raised for \<^verbatim>\<open>citation/title\<close> does not contain \<^verbatim>\<open>geospatial\<close>: it points to
  \<^verbatim>\<open>list_metadatablocks\<close> instead of listing the registered blocks.
\<close>

theorem missing_block_message_lists_no_blocks:
  "map fst (metadatablocks geo_ds) = [''geospatial'']
   \<and> validate_required_field geo_ds ''citation/title''
       = (Inl (ValueError (missing_block_message ''citation'')), [])
   \<and> \<not> str_in ''geospatial'' (missing_block_message ''citation'')"
  using not_in_message(1)
  by (simp add: geo_ds_def validate_required_field_def)

text \<open>
  C9. The ignore patterns are tested against the components of the directory that is
  walked, never against a file name. With \<^verbatim>\<open>include_hidden\<close> set and the patterns \<^verbatim>\<open>.tmp\<close>
  and \<^verbatim>\<open>secret\<close>, the directory \<^verbatim>\<open>secret_dir\<close> is skipped with its file, but \<^verbatim>\<open>a.tmp\<close> and
  \<^verbatim>\<open>visible/secret_file.txt\<close>, whose last component contains a pattern, are added to the
  dataset.
\<close>

theorem ignored_file_names_are_ingested:
  "str_in ''.tmp'' ''a.tmp''
   \<and> str_in ''secret'' ''secret_file.txt''
   \<and> has_ignore_dirs ''data/secret_dir'' ''data'' [''.tmp'', ''secret'']
   \<and> add_directory (\<lambda>d. True) (\<lambda>d. ignored_walk) ''data'' [] True [''.tmp'', ''secret''] empty_ds
       = (Inr (),
          empty_ds\<lparr>files :=
            [\<lparr>filename = ''a.tmp'', dv_dir = ''/'', local_path = ''data/a.tmp'',
               description = [], file_pid = None\<rparr>,
             \<lparr>filename = ''visible/secret_file.txt'', dv_dir = ''/visible'',
               local_path = ''data/visible/secret_file.txt'', description = [],
               file_pid = None\<rparr>]\<rparr>)"
  by (simp add: add_directory_def ignored_walk_def empty_ds_def has_hidden_dir_def
      has_ignore_dirs_def ignore_checks_def rel_dirs_def normpath_def startswith_def
      ingest_file_def path_join_def dirname_def split_str_def Let_def)

end
